theory Spec2Isabelle
  imports Complex_Main "HOL-Library.Log_Nat" "HOL-Library.Sublist" "HOL-Library.Multiset"
begin

section \<open>Strings\<close>

text \<open>
  Strings are modelled as lists of 8-bit characters, read as ASCII text.  The three string
  methods of the service, \<^verbatim>\<open>trim\<close>, \<^verbatim>\<open>toLowerCase\<close> and \<^verbatim>\<open>includes\<close>, are modelled on
  that alphabet: white space is tab, line feed, vertical tab, form feed, carriage return and
  space, and only the letters A to Z have a lower-case form.
\<close>

definition isWhiteSpace :: "char \<Rightarrow> bool" where
  "isWhiteSpace c = (c \<in> set [CHR 0x09, CHR 0x0A, CHR 0x0B, CHR 0x0C, CHR 0x0D, CHR 0x20])"

definition trim :: "string \<Rightarrow> string" where
  "trim s = rev (dropWhile isWhiteSpace (rev (dropWhile isWhiteSpace s)))"

definition toLowerCaseChar :: "char \<Rightarrow> char" where
  "toLowerCaseChar c =
     (case map_of (zip ''ABCDEFGHIJKLMNOPQRSTUVWXYZ'' ''abcdefghijklmnopqrstuvwxyz'') c of
        Some l \<Rightarrow> l
      | None \<Rightarrow> c)"

definition toLowerCase :: "string \<Rightarrow> string" where
  "toLowerCase s = map toLowerCaseChar s"

fun includesStr :: "string \<Rightarrow> string \<Rightarrow> bool" where
  "includesStr [] pat = (pat = [])"
| "includesStr (c # cs) pat = (prefix pat (c # cs) \<or> includesStr cs pat)"

fun join :: "string \<Rightarrow> string list \<Rightarrow> string" where
  "join sep [] = []"
| "join sep [x] = x"
| "join sep (x # y # ys) = x @ sep @ join sep (y # ys)"

text \<open>The bullet character of the fixed answers (U+2022), as its three UTF-8 bytes.\<close>

definition bullet :: string where
  "bullet = [CHR 0xE2, CHR 0x80, CHR 0xA2]"

section \<open>Answer classification\<close>

text \<open>\<^verbatim>\<open>isErrorResponse\<close>: the failure signatures and the case-insensitive search for them.\<close>

definition errorPatterns :: "string list" where
  "errorPatterns =
     [''## System Error'',
      ''## Error'',
      ''encountered an error'',
      ''something went wrong'',
      ''System is initializing'',
      ''Information Not Available'']"

definition isErrorResponse :: "string \<Rightarrow> bool" where
  "isErrorResponse ans =
     list_ex (\<lambda>pattern. includesStr (toLowerCase ans) (toLowerCase pattern)) errorPatterns"

text \<open>
  The classifier as the specification words it: the answer contains, somewhere, a stretch of
  text that equals one of the phrases up to the case of its letters.
\<close>

definition containsIgnoringCase :: "string \<Rightarrow> string \<Rightarrow> bool" where
  "containsIgnoringCase ans phrase =
     (\<exists>before mid after. ans = before @ mid @ after \<and> toLowerCase mid = toLowerCase phrase)"

section \<open>Numbers of the page estimate\<close>

text \<open>
  The page estimate is computed on IEEE 754 doubles.  A \<open>number\<close> is a finite value, positive
  infinity or NaN; every quantity of the estimate is non-negative, so negative infinity and
  negative zero do not arise.  \<open>fl\<close> rounds a positive rational to the nearest double (ties to
  even, 53-bit significand); the operands here are integers below \<open>2^53\<close> and quotients of
  them, which stay inside the normal range of a double, so overflow and subnormal results are
  not modelled.
\<close>

datatype number = Finite rat | Infinity | NaN

definition roundTiesToEven :: "rat \<Rightarrow> int" where
  "roundTiesToEven x =
     (let n = \<lfloor>x\<rfloor>; r = x - of_int n
      in if r < 1 / 2 then n else if 1 / 2 < r then n + 1 else if even n then n else n + 1)"

definition ilog2 :: "rat \<Rightarrow> int" where
  "ilog2 x =
     (case quotient_of x of (p, q) \<Rightarrow>
        let d = bitlen p - bitlen q in if 2 powi d \<le> x then d else d - 1)"

definition fl :: "rat \<Rightarrow> rat" where
  "fl x =
     (if x \<le> 0 then 0
      else let e = ilog2 x
           in of_int (roundTiesToEven (x / 2 powi (e - 52))) * 2 powi (e - 52))"

fun numDiv :: "number \<Rightarrow> number \<Rightarrow> number" where
  "numDiv NaN y = NaN"
| "numDiv x NaN = NaN"
| "numDiv Infinity Infinity = NaN"
| "numDiv Infinity (Finite b) = Infinity"
| "numDiv (Finite a) Infinity = Finite 0"
| "numDiv (Finite a) (Finite b) =
     (if b = 0 then (if a = 0 then NaN else Infinity) else Finite (fl (a / b)))"

fun Math_floor :: "number \<Rightarrow> number" where
  "Math_floor (Finite a) = Finite (of_int \<lfloor>a\<rfloor>)"
| "Math_floor Infinity = Infinity"
| "Math_floor NaN = NaN"

text \<open>Adding one to an integer below \<open>2^53\<close> is exact.\<close>

fun plusOne :: "number \<Rightarrow> number" where
  "plusOne (Finite a) = Finite (a + 1)"
| "plusOne Infinity = Infinity"
| "plusOne NaN = NaN"

fun Math_min :: "number \<Rightarrow> number \<Rightarrow> number" where
  "Math_min NaN y = NaN"
| "Math_min x NaN = NaN"
| "Math_min Infinity y = y"
| "Math_min x Infinity = x"
| "Math_min (Finite a) (Finite b) = Finite (min a b)"

section \<open>Page attribution of a segment\<close>

text \<open>
  The two expressions of \<^verbatim>\<open>processIfNew\<close> that attribute a page to the segment at \<open>index\<close>,
  for a text of \<open>textLength\<close> characters on \<open>numpages\<close> pages:
  \<^verbatim>\<open>Math.floor((index * 1000) / (text.length / numpages)) + 1\<close> and
  \<^verbatim>\<open>Math.min(estimatedPage, numpages)\<close>.
\<close>

definition estimatedPage :: "nat \<Rightarrow> nat \<Rightarrow> nat \<Rightarrow> number" where
  "estimatedPage index textLength numpages =
     plusOne (Math_floor
       (numDiv (Finite (of_nat (index * 1000)))
               (numDiv (Finite (of_nat textLength)) (Finite (of_nat numpages)))))"

definition pageNumberOf :: "nat \<Rightarrow> nat \<Rightarrow> nat \<Rightarrow> number" where
  "pageNumberOf index textLength numpages =
     Math_min (estimatedPage index textLength numpages) (Finite (of_nat numpages))"

text \<open>
  The page as the specification words the formula: the same expression on exact quotients,
  kept within 1 and \<open>totalPages\<close>.
\<close>

definition specEstimatedPage :: "nat \<Rightarrow> nat \<Rightarrow> nat \<Rightarrow> int" where
  "specEstimatedPage ordinalIndex totalTextLength totalPages =
     max 1 (min (\<lfloor>(of_nat (ordinalIndex * 1000) :: rat)
                    / (of_nat totalTextLength / of_nat totalPages)\<rfloor> + 1)
                (int totalPages))"

section \<open>Page numbers of a search\<close>

text \<open>
  A passage returned by the similarity search: its text and the page recorded in its metadata
  (\<open>None\<close> when the metadata has no page).
\<close>

record searchResult =
  pageContent :: string
  pageNumber :: "int option"

text \<open>The elements of a \<^verbatim>\<open>Set\<close> built from a list, in order of first insertion.\<close>

fun setValues :: "'a list \<Rightarrow> 'a list \<Rightarrow> 'a list" where
  "setValues seen [] = seen"
| "setValues seen (x # xs) = setValues (if x \<in> set seen then seen else seen @ [x]) xs"

definition keptPages :: "int option list \<Rightarrow> int list" where
  "keptPages pages =
     concat (map (\<lambda>page. case page of
                            None \<Rightarrow> []
                          | Some p \<Rightarrow> if p \<noteq> 0 \<and> 0 < p then [p] else []) pages)"

definition searchPageNumbers :: "searchResult list \<Rightarrow> int list" where
  "searchPageNumbers searchResults =
     sort (setValues [] (keptPages (map pageNumber searchResults)))"

text \<open>
  What the specification asks of a list of page numbers: ascending without duplicates, and no
  value below 1.
\<close>

definition ascendingPages :: "int list \<Rightarrow> bool" where
  "ascendingPages ps = (sorted_wrt (<) ps \<and> distinct ps \<and> list_all (\<lambda>p. 0 < p) ps)"

section \<open>The conversation ledger and the services of a request\<close>

text \<open>A stored turn: the \<^verbatim>\<open>Chat\<close> schema.\<close>

record chat =
  sessionId :: string
  messageId :: string
  question :: string
  answer :: string
  pageNumbers :: "int list"
  rating :: "int option"
  success :: bool
  timestamp :: int

text \<open>
  The object \<^verbatim>\<open>getAnswer\<close> returns: \<^verbatim>\<open>messageId\<close>, \<^verbatim>\<open>answer\<close>, \<^verbatim>\<open>pageNumbers\<close> and, on a
  cache hit only, \<^verbatim>\<open>consistent: true\<close>.
\<close>

record reply =
  replyMessageId :: string
  replyAnswer :: string
  replyPageNumbers :: "int list"
  consistent :: bool

text \<open>
  Calls to the outside that one request makes, in the order it makes them: the cache lookup
  with the question it looks for, the history query with its session, the similarity search
  with its question and \<open>k\<close>, the model invocation with its prompt, and each turn handed to
  \<^verbatim>\<open>save\<close>.
\<close>

datatype event =
    FindOne string
  | Find string
  | SimilaritySearch string nat
  | LlmInvoke string
  | Save chat

fun isRetrieval :: "event \<Rightarrow> bool" where
  "isRetrieval (SimilaritySearch q k) = True"
| "isRetrieval e = False"

fun isGeneration :: "event \<Rightarrow> bool" where
  "isGeneration (LlmInvoke p) = True"
| "isGeneration e = False"

text \<open>
  What one request finds around it.  \<open>chatModel\<close>: the \<^verbatim>\<open>Chat\<close> model is registered.
  \<open>uuidv4\<close> and \<open>now\<close>: the identifier and the clock value the request draws.  The four
  \<open>Throws\<close> flags say whether the lookup, the history query, the save of the request's turn
  and the save of the error turn raise.  \<open>vectorStore\<close> is \<open>None\<close> while no store is
  connected; a connected store answers a search with passages, or \<open>None\<close> when it raises.
  \<open>llm\<close> answers a prompt with the model's text, or \<open>None\<close> when the invocation raises.
  \<open>promptFormat\<close> fills the template with context, history and question.
  \<open>formatResponse\<close> and \<open>cleanPageReferences\<close> are the regular-expression rewrites of the model's
  text (spacing of headings and bullets, removal of page references); every property below
  holds whatever strings they return.
\<close>

record services =
  chatModel :: bool
  uuidv4 :: string
  now :: int
  findOneThrows :: bool
  findThrows :: bool
  saveThrows :: bool
  errorSaveThrows :: bool
  vectorStore :: "(string \<Rightarrow> nat \<Rightarrow> searchResult list option) option"
  promptFormat :: "string \<Rightarrow> string \<Rightarrow> string \<Rightarrow> string"
  llm :: "string \<Rightarrow> string option"
  formatResponse :: "string \<Rightarrow> string"
  cleanPageReferences :: "string \<Rightarrow> string"

datatype error = StoreError

record outcome =
  response :: reply
  ledger :: "chat list"
  trace :: "event list"

section \<open>The fixed answers\<close>

definition initializingAnswer :: string where
  "initializingAnswer =
     ''## System Error\<newline>\<newline>System is initializing. Please wait a moment and try again.''"

definition informationNotAvailable :: string where
  "informationNotAvailable =
     ''## Information Not Available\<newline>\<newline>'' @
     ''I don't have relevant information in the hospital guidelines to answer this question.\<newline>\<newline>'' @
     ''## Please Check\<newline>'' @
     bullet @ '' PDF documents are uploaded to the system\<newline>'' @
     bullet @ '' The question relates to hospital procedures or guidelines\<newline>'' @
     bullet @ '' System has finished processing documents''"

definition errorAnswer :: string where
  "errorAnswer =
     ''## System Error\<newline>\<newline>'' @
     ''I apologize, but I encountered an error while processing your question.\<newline>\<newline>'' @
     ''## Please Try\<newline>'' @
     bullet @ '' Asking the question again\<newline>'' @
     bullet @ '' Using different wording\<newline>'' @
     bullet @ '' Checking if the system is properly initialized''"

section \<open>The answer pipeline\<close>

text \<open>\<^verbatim>\<open>Chat.findOne({question: question.trim().toLowerCase(), success: true})\<close>.\<close>

definition exactMatchOf :: "chat list \<Rightarrow> string \<Rightarrow> chat option" where
  "exactMatchOf db q = find (\<lambda>c. question c = toLowerCase (trim q) \<and> success c) db"

text \<open>
  \<^verbatim>\<open>Chat.find({sessionId, success: true}).sort({timestamp: -1}).limit(3)\<close>: the turns of the
  session that succeeded, newest first, the first three of them.
\<close>

definition recentChats :: "chat list \<Rightarrow> string \<Rightarrow> chat list" where
  "recentChats db sid =
     take 3 (sort_key (\<lambda>c. - timestamp c) (filter (\<lambda>c. sessionId c = sid \<and> success c) db))"

definition conversationHistory :: "chat list \<Rightarrow> string" where
  "conversationHistory recent =
     join ''\<newline>\<newline>''
       (map (\<lambda>c. ''Q: '' @ question c @ ''\<newline>A: '' @ answer c) (rev recent))"

text \<open>
  The vector search: context and page numbers keep their initial values when no store is
  connected or the search raises.
\<close>

definition vectorSearch :: "services \<Rightarrow> string \<Rightarrow> (string \<times> int list) \<times> event list" where
  "vectorSearch sv q =
     (case vectorStore sv of
        None \<Rightarrow> (([], []), [])
      | Some similaritySearch \<Rightarrow>
          (case similaritySearch q 5 of
             None \<Rightarrow> (([], []), [SimilaritySearch q 5])
           | Some searchResults \<Rightarrow>
               ((join ''\<newline>\<newline>'' (map pageContent searchResults),
                 searchPageNumbers searchResults),
                [SimilaritySearch q 5])))"

text \<open>
  Generation with its own handler: a raised invocation gives the fixed error answer, and the
  formatted text of the model is classified.
\<close>

definition generateAnswer ::
  "services \<Rightarrow> string \<Rightarrow> string \<Rightarrow> string \<Rightarrow> (string \<times> bool) \<times> event list" where
  "generateAnswer sv context history q =
     (let promptText =
            promptFormat sv context
              (if history = [] then ''No previous conversation'' else history) q
      in case llm sv promptText of
           None \<Rightarrow> ((errorAnswer, False), [LlmInvoke promptText])
         | Some content \<Rightarrow>
             let ans = trim (cleanPageReferences sv (formatResponse sv content))
             in ((ans, \<not> isErrorResponse ans), [LlmInvoke promptText]))"

text \<open>
  The body of the outer \<^verbatim>\<open>try\<close> of \<^verbatim>\<open>getAnswer\<close>, once the model is known to be registered.
  \<open>Inl\<close> is an exception that reaches the outer handler.
\<close>

definition getAnswerTry ::
  "services \<Rightarrow> chat list \<Rightarrow> string \<Rightarrow> string \<Rightarrow> (error + reply) \<times> chat list \<times> event list" where
  "getAnswerTry sv db q sid =
     (if findOneThrows sv then (Inl StoreError, db, [FindOne (toLowerCase (trim q))])
      else case exactMatchOf db q of
        Some exactMatch \<Rightarrow>
          let newChat = \<lparr>sessionId = sid, messageId = uuidv4 sv, question = trim q,
                         answer = answer exactMatch, pageNumbers = pageNumbers exactMatch,
                         rating = None, success = True, timestamp = now sv\<rparr>;
              tr = [FindOne (toLowerCase (trim q)), Save newChat]
          in if saveThrows sv then (Inl StoreError, db, tr)
             else (Inr \<lparr>replyMessageId = uuidv4 sv, replyAnswer = answer exactMatch,
                        replyPageNumbers = pageNumbers exactMatch, consistent = True\<rparr>,
                   db @ [newChat], tr)
      | None \<Rightarrow>
          if findThrows sv then (Inl StoreError, db, [FindOne (toLowerCase (trim q)), Find sid])
          else
            let history = conversationHistory (recentChats db sid);
                searched = vectorSearch sv q;
                context = fst (fst searched);
                pages = snd (fst searched);
                generated = (if context = [] then ((informationNotAvailable, False), [])
                             else generateAnswer sv context history q);
                ans = fst (fst generated);
                isSuccess = snd (fst generated);
                newChat = \<lparr>sessionId = sid, messageId = uuidv4 sv,
                           question = toLowerCase (trim q), answer = ans, pageNumbers = pages,
                           rating = None, success = isSuccess, timestamp = now sv\<rparr>;
                tr = [FindOne (toLowerCase (trim q)), Find sid] @ snd searched @ snd generated
                     @ [Save newChat]
            in if saveThrows sv then (Inl StoreError, db, tr)
               else (Inr \<lparr>replyMessageId = uuidv4 sv, replyAnswer = ans,
                          replyPageNumbers = pages, consistent = False\<rparr>,
                     db @ [newChat], tr))"

text \<open>
  \<^verbatim>\<open>getAnswer\<close>: the early return while the model is not registered, the body, and the outer
  handler, which answers with the fixed error text and tries to save an error turn.
\<close>

definition getAnswer :: "services \<Rightarrow> chat list \<Rightarrow> string \<Rightarrow> string \<Rightarrow> outcome" where
  "getAnswer sv db q sid =
     (if \<not> chatModel sv
      then \<lparr>response = \<lparr>replyMessageId = uuidv4 sv, replyAnswer = initializingAnswer,
                         replyPageNumbers = [], consistent = False\<rparr>,
            ledger = db, trace = []\<rparr>
      else case getAnswerTry sv db q sid of
        (Inr r, db', tr) \<Rightarrow> \<lparr>response = r, ledger = db', trace = tr\<rparr>
      | (Inl e, db', tr) \<Rightarrow>
          let errorChat = \<lparr>sessionId = sid, messageId = uuidv4 sv,
                           question = toLowerCase (trim q), answer = errorAnswer,
                           pageNumbers = [], rating = None, success = False,
                           timestamp = now sv\<rparr>
          in \<lparr>response = \<lparr>replyMessageId = uuidv4 sv, replyAnswer = errorAnswer,
                            replyPageNumbers = [], consistent = False\<rparr>,
              ledger = (if errorSaveThrows sv then db' else db' @ [errorChat]),
              trace = tr @ [Save errorChat]\<rparr>)"

section \<open>Ingestion\<close>

text \<open>
  A record of the ingestion ledger (the \<^verbatim>\<open>ProcessedPDF\<close> schema) and a document handed to the
  index: its text and the metadata \<^verbatim>\<open>source\<close>, \<^verbatim>\<open>chunkIndex\<close>, \<^verbatim>\<open>pageNumber\<close> and \<^verbatim>\<open>fileSize\<close>.
\<close>

record processedPDF =
  filename :: string
  fileSize :: nat
  processedAt :: int
  chunksCount :: nat

record langchainDoc =
  docText :: string
  source :: string
  chunkIndex :: nat
  docPageNumber :: number
  docFileSize :: nat

datatype ingestEvent =
    LedgerLookup string nat
  | IndexerInvoked "langchainDoc list"
  | LedgerSave processedPDF

fun isIndexerInvoked :: "ingestEvent \<Rightarrow> bool" where
  "isIndexerInvoked (IndexerInvoked ds) = True"
| "isIndexerInvoked e = False"

text \<open>
  What one run of \<^verbatim>\<open>processIfNew\<close> finds around it.  \<open>statSync\<close> gives the size of a file of the
  folder, \<open>readPdf\<close> its text and page count (\<^verbatim>\<open>readFileSync\<close> and the parser); \<open>None\<close> when
  they raise.  \<open>ledgerFindThrows\<close>: the lookup of the ledger raises (the model is not ready, or
  the query fails).  \<open>createDocuments\<close> is the text splitter.  \<open>fromDocumentsThrows\<close>: indexing
  raises.  \<open>ledgerSaveThrows\<close>: the save of the ledger's record raises.
\<close>

record ingestServices =
  statSync :: "string \<Rightarrow> nat option"
  ledgerFindThrows :: bool
  readPdf :: "string \<Rightarrow> (string \<times> nat) option"
  createDocuments :: "string \<Rightarrow> string list"
  fromDocumentsThrows :: bool
  ledgerSaveThrows :: bool
  clock :: int

record ingestState =
  processed :: "processedPDF list"
  indexed :: "langchainDoc list"
  events :: "ingestEvent list"

datatype ingestError = StatFailed | ReadFailed | IndexUnavailable

text \<open>
  The documents built from the segments of a text, each with its index and page.  The length
  of the text is its number of characters, which is \<^verbatim>\<open>text.length\<close> for ASCII text.
\<close>

definition langchainDocs :: "string \<Rightarrow> nat \<Rightarrow> string \<Rightarrow> nat \<Rightarrow> string list \<Rightarrow> langchainDoc list" where
  "langchainDocs name sz pdfText numpages docs =
     map (\<lambda>(index, doc).
            \<lparr>docText = doc, source = name, chunkIndex = index,
             docPageNumber = pageNumberOf index (length pdfText) numpages,
             docFileSize = sz\<rparr>)
         (zip [0..<length docs] docs)"

text \<open>
  The body of the outer \<^verbatim>\<open>try\<close> of \<^verbatim>\<open>processIfNew\<close>.  The first component is the exception
  that reaches the outer handler, if any.  The lookup and the save of the record have handlers
  of their own: a lookup that raises leaves \<^verbatim>\<open>existing\<close> null, a save that raises is dropped.
\<close>

definition processIfNewTry ::
  "ingestServices \<Rightarrow> ingestState \<Rightarrow> string \<Rightarrow> ingestError option \<times> ingestState" where
  "processIfNewTry sv st name =
     (case statSync sv name of
        None \<Rightarrow> (Some StatFailed, st)
      | Some sz \<Rightarrow>
          let existing = (if ledgerFindThrows sv then None
                          else find (\<lambda>r. filename r = name \<and> fileSize r = sz) (processed st));
              st1 = st\<lparr>events := events st @ [LedgerLookup name sz]\<rparr>
          in case existing of
               Some r \<Rightarrow> (None, st1)
             | None \<Rightarrow>
                 (case readPdf sv name of
                    None \<Rightarrow> (Some ReadFailed, st1)
                  | Some (pdfText, numpages) \<Rightarrow>
                      let docs = langchainDocs name sz pdfText numpages
                                   (createDocuments sv pdfText);
                          st2 = st1\<lparr>events := events st1 @ [IndexerInvoked docs]\<rparr>
                      in if fromDocumentsThrows sv then (Some IndexUnavailable, st2)
                         else
                           let st3 = st2\<lparr>indexed := indexed st2 @ docs\<rparr>;
                               processedRecord =
                                 \<lparr>filename = name, fileSize = sz, processedAt = clock sv,
                                  chunksCount = length docs\<rparr>;
                               st4 = st3\<lparr>events := events st3 @ [LedgerSave processedRecord]\<rparr>
                           in if ledgerSaveThrows sv then (None, st4)
                              else (None, st4\<lparr>processed := processed st4 @ [processedRecord]\<rparr>)))"

text \<open>
  \<^verbatim>\<open>processIfNew\<close>: the outer handler logs whatever the body raised.  \<open>Inl\<close> would be an exception
  leaving the function.
\<close>

definition processIfNew ::
  "ingestServices \<Rightarrow> ingestState \<Rightarrow> string \<Rightarrow> ingestError + ingestState" where
  "processIfNew sv st name =
     (case processIfNewTry sv st name of
        (None, st') \<Rightarrow> Inr st'
      | (Some e, st') \<Rightarrow> Inr st')"

text \<open>Two runs over the same file, the second in the state the first one left.\<close>

definition processTwice ::
  "ingestServices \<Rightarrow> ingestServices \<Rightarrow> ingestState \<Rightarrow> string \<Rightarrow> ingestError + ingestState" where
  "processTwice sv1 sv2 st name =
     (case processIfNew sv1 st name of
        Inl e \<Rightarrow> Inl e
      | Inr st' \<Rightarrow> processIfNew sv2 st' name)"

definition recordsOf :: "ingestState \<Rightarrow> string \<Rightarrow> nat \<Rightarrow> processedPDF list" where
  "recordsOf st name sz = filter (\<lambda>r. filename r = name \<and> fileSize r = sz) (processed st)"

definition indexerInvocations :: "ingestState \<Rightarrow> nat" where
  "indexerInvocations st = length (filter isIndexerInvoked (events st))"

section \<open>Example data\<close>

definition exampleTurn :: chat where
  "exampleTurn =
     \<lparr>sessionId = ''s1'', messageId = ''m1'', question = ''what is jci?'',
      answer = ''JCI is an accreditation body.'', pageNumbers = [2, 5],
      rating = None, success = True, timestamp = 100\<rparr>"

definition examplePassages :: "searchResult list" where
  "examplePassages =
     [\<lparr>pageContent = ''Hands are washed before contact.'', pageNumber = Some 3\<rparr>,
      \<lparr>pageContent = ''Gloves are changed between patients.'', pageNumber = Some 1\<rparr>,
      \<lparr>pageContent = ''Hands are washed after contact.'', pageNumber = Some 3\<rparr>,
      \<lparr>pageContent = ''Cover page.'', pageNumber = Some 0\<rparr>,
      \<lparr>pageContent = ''Appendix.'', pageNumber = None\<rparr>]"

definition exampleServices :: services where
  "exampleServices =
     \<lparr>chatModel = True, uuidv4 = ''m9'', now = 900,
      findOneThrows = False, findThrows = False, saveThrows = False, errorSaveThrows = False,
      vectorStore = Some (\<lambda>q k. Some (take k examplePassages)),
      promptFormat = (\<lambda>context history q. history @ ''|'' @ q),
      llm = (\<lambda>promptText. Some ''Hands are washed.''),
      formatResponse = (\<lambda>raw. raw),
      cleanPageReferences = (\<lambda>formatted. formatted)\<rparr>"

definition exampleLedger :: "chat list" where
  "exampleLedger =
     [exampleTurn,
      \<lparr>sessionId = ''s1'', messageId = ''m2'', question = ''q2'', answer = ''a2'',
       pageNumbers = [], rating = None, success = True, timestamp = 200\<rparr>,
      \<lparr>sessionId = ''s1'', messageId = ''m3'', question = ''q3'', answer = errorAnswer,
       pageNumbers = [], rating = None, success = False, timestamp = 300\<rparr>,
      \<lparr>sessionId = ''s2'', messageId = ''m4'', question = ''q4'', answer = ''a4'',
       pageNumbers = [], rating = None, success = True, timestamp = 400\<rparr>,
      \<lparr>sessionId = ''s1'', messageId = ''m5'', question = ''q5'', answer = ''a5'',
       pageNumbers = [], rating = None, success = True, timestamp = 500\<rparr>,
      \<lparr>sessionId = ''s1'', messageId = ''m6'', question = ''q6'', answer = ''a6'',
       pageNumbers = [], rating = None, success = True, timestamp = 600\<rparr>]"

definition exampleIngest :: ingestServices where
  "exampleIngest =
     \<lparr>statSync = (\<lambda>name. if name = ''policy.pdf'' then Some 10240 else None),
      ledgerFindThrows = False,
      readPdf = (\<lambda>name. Some (''Visitors sign in. Staff wear badges.'', 2)),
      createDocuments = (\<lambda>pdfText. [''Visitors sign in.'', ''Staff wear badges.'']),
      fromDocumentsThrows = False,
      ledgerSaveThrows = False,
      clock = 50\<rparr>"

definition exampleText :: string where
  "exampleText = replicate 1700 (CHR ''a'')"

definition emptyIngestState :: ingestState where
  "emptyIngestState = \<lparr>processed = [], indexed = [], events = []\<rparr>"

section \<open>Properties of the page estimate\<close>

lemma roundTiesToEven_nonneg: "0 \<le> x \<Longrightarrow> 0 \<le> roundTiesToEven x"
  by (auto simp: roundTiesToEven_def Let_def)

lemma roundTiesToEven_pos: "1 \<le> x \<Longrightarrow> 1 \<le> roundTiesToEven x"
  by (auto simp: roundTiesToEven_def Let_def)

lemma ilog2_le:
  assumes "0 < x"
  shows "2 powi (ilog2 x) \<le> x"
proof -
  obtain p q where pq: "quotient_of x = (p, q)" by (cases "quotient_of x")
  have q: "0 < q" using pq by (rule quotient_of_denom_pos)
  have x: "x = of_int p / of_int q" using pq by (rule quotient_of_div)
  have p: "0 < p" using assms q x by (simp add: zero_less_divide_iff)
  define d where "d = bitlen p - bitlen q"
  have il: "ilog2 x = (if 2 powi d \<le> x then d else d - 1)"
    by (simp add: ilog2_def pq d_def Let_def)
  have bp1: "1 \<le> bitlen p" using p by (simp add: bitlen_def floorlog_def)
  have bq0: "0 \<le> bitlen q" by (simp add: bitlen_def)
  have lo: "(2::rat) powi (bitlen p - 1) \<le> of_int p"
  proof -
    have "2 ^ nat (bitlen p - 1) \<le> p" using bitlen_bounds [OF p] by simp
    then have "(of_int (2 ^ nat (bitlen p - 1)) :: rat) \<le> of_int p" by (simp only: of_int_le_iff)
    then show ?thesis using bp1 by (simp add: power_int_nonneg_exp)
  qed
  have hi: "of_int q \<le> (2::rat) powi (bitlen q)"
  proof -
    have "q < 2 ^ nat (bitlen q)" using bitlen_bounds [OF q] by simp
    then have "(of_int q :: rat) \<le> of_int (2 ^ nat (bitlen q))" by (simp only: of_int_le_iff)
    then show ?thesis using bq0 by (simp add: power_int_nonneg_exp)
  qed
  have "(2::rat) powi (d - 1) = 2 powi (bitlen p - 1) / 2 powi (bitlen q)"
    unfolding d_def by (subst power_int_diff [symmetric]) (simp_all add: algebra_simps)
  also have "\<dots> \<le> of_int p / of_int q"
    using lo hi q p by (intro frac_le) simp_all
  finally have "(2::rat) powi (d - 1) \<le> x" using x by simp
  then show ?thesis by (simp add: il)
qed

lemma fl_nonneg: "0 \<le> fl x"
  by (simp add: fl_def Let_def roundTiesToEven_nonneg)

lemma pow2_shift_52: "(2::rat) powi 52 * 2 powi (e - 52) = 2 powi e"
    by (subst power_int_add [symmetric]) simp_all

lemma one_le_pow2_52: "(1::rat) \<le> 2 powi 52" by (rule one_le_power_int) simp_all

lemma fl_pos:
  assumes "0 < x"
  shows "0 < fl x"
proof -
  define e where "e = ilog2 x"
  define s :: rat where "s = 2 powi (e - 52)"
  have s: "0 < s" by (simp add: s_def)
  have "2 powi 52 * s \<le> x" using ilog2_le [OF assms] pow2_shift_52 [of e] by (simp only: e_def s_def)
  then have "(2::rat) powi 52 \<le> x / s" using s
    by (simp only: pos_le_divide_eq)
  then have "1 \<le> x / s" using one_le_pow2_52 by linarith
  then have "1 \<le> roundTiesToEven (x / s)" by (rule roundTiesToEven_pos)
  then have "0 < (of_int (roundTiesToEven (x / s)) :: rat) * s"
    using s by (intro mult_pos_pos) simp_all
  moreover have "fl x = of_int (roundTiesToEven (x / s)) * s"
    using assms by (simp add: fl_def Let_def e_def s_def)
  ultimately show ?thesis by simp
qed

lemma pageNumberOf_eq:
  assumes "0 < textLength" "0 < numpages"
  shows "pageNumberOf index textLength numpages =
         Finite (of_int (min (\<lfloor>fl (of_nat (index * 1000) / fl (of_nat textLength / of_nat numpages))\<rfloor> + 1) (int numpages)))"
proof -
  have "0 < fl (of_nat textLength / of_nat numpages)" using assms by (intro fl_pos) simp
  then show ?thesis using assms
    by (simp add: pageNumberOf_def estimatedPage_def min_def)
qed

lemma langchainDocs_nth:
  assumes "i < length docs"
  shows "langchainDocs name sz pdfText numpages docs ! i =
           \<lparr>docText = docs ! i, source = name, chunkIndex = i,
            docPageNumber = pageNumberOf i (length pdfText) numpages, docFileSize = sz\<rparr>"
  using assms by (simp add: langchainDocs_def)

text \<open>
  The rounding is that of doubles: one tenth rounds to the double nearest to it.  A file
  without pages would get page 0 throughout.
\<close>

lemma fl_one_tenth: "fl (1 / 10) = 3602879701896397 / 36028797018963968"
  by code_simp

lemma pageNumberOf_no_pages: "0 < textLength \<Longrightarrow> pageNumberOf index textLength 0 = Finite 0"
  by (simp add: pageNumberOf_def estimatedPage_def)

lemma pageNumberOf_rounding_example: "pageNumberOf 1 1700 51 = Finite 30"
proof -
  have d: "fl (100 / 3) = 4691249611844267 / 140737488355328" by code_simp
  have f: "\<lfloor>fl (140737488355328000 / 4691249611844267)\<rfloor> = 29" by code_simp
  show ?thesis by (simp add: pageNumberOf_def estimatedPage_def d f)
qed

lemma pageNumberOf_rounding_example2: "pageNumberOf 5 10000 14 = Finite 7"
proof -
  have d: "fl (5000 / 7) = 6282923587291429 / 8796093022208" by code_simp
  have f: "\<lfloor>fl (43980465111040000 / 6282923587291429)\<rfloor> = 6" by code_simp
  show ?thesis by (simp add: pageNumberOf_def estimatedPage_def d f)
qed

lemma exampleText_length: "length exampleText = 1700"
  by (simp add: exampleText_def)

lemma exampleText_not_empty: "exampleText \<noteq> []"
  using exampleText_length by auto

text \<open>
  Claim C4, as the code has it.  For a text that is not empty, on at least one page, the
  document built from the segment at index \<open>i\<close> carries that index and the page
  \<open>floor (i * 1000 / (textLength / numpages)) + 1\<close> with each of the two divisions rounded to
  the nearest double, cut down to \<open>numpages\<close>; the page is an integer between 1 and \<open>numpages\<close>.
\<close>

theorem segment_page_within_pages:
  assumes "pdfText \<noteq> []" and "0 < numpages" and "i < length docs"
  shows "\<exists>n. docPageNumber (langchainDocs name sz pdfText numpages docs ! i) = Finite (of_int n) \<and>
             chunkIndex (langchainDocs name sz pdfText numpages docs ! i) = i \<and>
             n = min (\<lfloor>fl (of_nat (i * 1000) / fl (of_nat (length pdfText) / of_nat numpages))\<rfloor> + 1)
                     (int numpages) \<and>
             1 \<le> n \<and> n \<le> int numpages"
proof -
  have len: "0 < length pdfText" using assms(1) by simp
  have "0 \<le> fl (of_nat (i * 1000) / fl (of_nat (length pdfText) / of_nat numpages))"
    by (rule fl_nonneg)
  then have "0 \<le> \<lfloor>fl (of_nat (i * 1000) / fl (of_nat (length pdfText) / of_nat numpages))\<rfloor>"
    by simp
  then show ?thesis
    using assms(2) by (simp add: langchainDocs_nth [OF assms(3)] pageNumberOf_eq [OF len assms(2)])
qed

text \<open>
  Runs of it: the segment 1 of a text of 1700 characters on 51 pages gets page 30, below the
  number of pages; the two segments of a text of 36 characters on two pages get pages 1 and 2.
\<close>

theorem segment_page_within_pages_witness:
  "exampleText \<noteq> [] \<and> (0::nat) < 51 \<and> (1::nat) < length [''a'', ''b''] \<and>
   length exampleText = 1700 \<and>
   chunkIndex (langchainDocs ''policy.pdf'' 10240 exampleText 51 [''a'', ''b''] ! 1) = 1 \<and>
   docPageNumber (langchainDocs ''policy.pdf'' 10240 exampleText 51 [''a'', ''b''] ! 1) = Finite 30 \<and>
   docPageNumber (langchainDocs ''policy.pdf'' 10240 ''Visitors sign in. Staff wear badges.'' 2
                    [''Visitors sign in.'', ''Staff wear badges.''] ! 0) = Finite 1 \<and>
   docPageNumber (langchainDocs ''policy.pdf'' 10240 ''Visitors sign in. Staff wear badges.'' 2
                    [''Visitors sign in.'', ''Staff wear badges.''] ! 1) = Finite 2"
proof -
  have d: "fl 18 = 18" by code_simp
  have f: "\<lfloor>fl (500 / 9)\<rfloor> = 55" by code_simp
  have z: "fl 0 = 0" by (simp add: fl_def)
  have d': "fl (100 / 3) = 4691249611844267 / 140737488355328" by code_simp
  have f': "\<lfloor>fl (140737488355328000 / 4691249611844267)\<rfloor> = 29" by code_simp
  have one: "(1::nat) < length [''a'', ''b'']" by simp
  have pos: "(0::nat) < 51" by simp
  from segment_page_within_pages [OF exampleText_not_empty pos one, of "''policy.pdf''" 10240]
  have a: "chunkIndex (langchainDocs ''policy.pdf'' 10240 exampleText 51 [''a'', ''b''] ! 1) = 1 \<and>
     docPageNumber (langchainDocs ''policy.pdf'' 10240 exampleText 51 [''a'', ''b''] ! 1) = Finite 30"
    by (simp add: exampleText_length d' f')
  from segment_page_within_pages [of "''Visitors sign in. Staff wear badges.''" 2 0
      "[''Visitors sign in.'', ''Staff wear badges.'']" "''policy.pdf''" 10240]
    segment_page_within_pages [of "''Visitors sign in. Staff wear badges.''" 2 1
      "[''Visitors sign in.'', ''Staff wear badges.'']" "''policy.pdf''" 10240]
  have b: "docPageNumber (langchainDocs ''policy.pdf'' 10240 ''Visitors sign in. Staff wear badges.'' 2
                    [''Visitors sign in.'', ''Staff wear badges.''] ! 0) = Finite 1 \<and>
   docPageNumber (langchainDocs ''policy.pdf'' 10240 ''Visitors sign in. Staff wear badges.'' 2
                    [''Visitors sign in.'', ''Staff wear badges.''] ! 1) = Finite 2"
    using d f z by simp
  show ?thesis using a b exampleText_not_empty exampleText_length by simp
qed

text \<open>
  The claim reads the formula on exact quotients, and there it fails: for the segment 1 of
  1700 characters on 51 pages the code gives page 30 where the exact formula gives 31, and for
  the segment 5 of 10000 characters on 14 pages it gives 7 where the exact formula gives 8.
\<close>

theorem page_differs_from_exact_formula:
  "pageNumberOf 1 1700 51 = Finite 30 \<and> specEstimatedPage 1 1700 51 = 31 \<and>
   pageNumberOf 5 10000 14 = Finite 7 \<and> specEstimatedPage 5 10000 14 = 8"
proof -
  have a: "pageNumberOf 1 1700 51 = Finite 30" by (rule pageNumberOf_rounding_example)
  have b: "pageNumberOf 5 10000 14 = Finite 7" by (rule pageNumberOf_rounding_example2)
  have c: "specEstimatedPage 1 1700 51 = 31" by (simp add: specEstimatedPage_def)
  have d: "specEstimatedPage 5 10000 14 = 8" by (simp add: specEstimatedPage_def)
  show ?thesis using a b c d by simp
qed

section \<open>Properties of the classifier\<close>

lemma includesStr_iff: "includesStr s pat \<longleftrightarrow> (\<exists>before after. s = before @ pat @ after)"
proof (induction s)
  case Nil
  then show ?case by auto
next
  case (Cons c cs)
  show ?case
  proof
    assume "includesStr (c # cs) pat"
    then consider "prefix pat (c # cs)" | "includesStr cs pat" by auto
    then show "\<exists>before after. c # cs = before @ pat @ after"
    proof cases
      case 1
      then obtain zs where "c # cs = pat @ zs" by (auto simp: prefix_def)
      then have "c # cs = [] @ pat @ zs" by simp
      then show ?thesis by blast
    next
      case 2
      then obtain b a where "cs = b @ pat @ a" using Cons.IH by blast
      then have "c # cs = (c # b) @ pat @ a" by simp
      then show ?thesis by blast
    qed
  next
    assume "\<exists>before after. c # cs = before @ pat @ after"
    then obtain b a where ba: "c # cs = b @ pat @ a" by blast
    show "includesStr (c # cs) pat"
    proof (cases b)
      case Nil
      then have "prefix pat (c # cs)" using ba by (simp add: prefix_def)
      then show ?thesis by simp
    next
      case (Cons b0 bs)
      then have "cs = bs @ pat @ a" using ba by simp
      then have "includesStr cs pat" using Cons.IH by blast
      then show ?thesis by simp
    qed
  qed
qed

lemma includes_toLowerCase_iff:
  "includesStr (toLowerCase ans) (toLowerCase phrase) \<longleftrightarrow> containsIgnoringCase ans phrase"
proof
  assume "includesStr (toLowerCase ans) (toLowerCase phrase)"
  then obtain b a where "map toLowerCaseChar ans = b @ toLowerCase phrase @ a"
    by (auto simp: includesStr_iff toLowerCase_def)
  then obtain us vs where 1: "ans = us @ vs" and "b = map toLowerCaseChar us"
      and 2: "toLowerCase phrase @ a = map toLowerCaseChar vs"
    by (auto simp: map_eq_append_conv)
  from 2 obtain ms ws where 3: "vs = ms @ ws" and 4: "toLowerCase phrase = map toLowerCaseChar ms"
    by (auto simp: append_eq_map_conv)
  from 1 3 4 show "containsIgnoringCase ans phrase"
    unfolding containsIgnoringCase_def toLowerCase_def by metis
next
  assume "containsIgnoringCase ans phrase"
  then obtain b m a where "ans = b @ m @ a" "toLowerCase m = toLowerCase phrase"
    by (auto simp: containsIgnoringCase_def)
  then have "toLowerCase ans = toLowerCase b @ toLowerCase phrase @ toLowerCase a"
    by (simp add: toLowerCase_def)
  then show "includesStr (toLowerCase ans) (toLowerCase phrase)"
    unfolding includesStr_iff by blast
qed

lemma isErrorResponse_iff:
  "isErrorResponse ans \<longleftrightarrow> (\<exists>phrase \<in> set errorPatterns. containsIgnoringCase ans phrase)"
  by (simp add: isErrorResponse_def list_ex_iff includes_toLowerCase_iff)

lemma isErrorResponse_informationNotAvailable: "isErrorResponse informationNotAvailable"
  by code_simp

lemma isErrorResponse_errorAnswer: "isErrorResponse errorAnswer"
  by code_simp

lemma generateAnswer_classified:
  "snd (fst (generateAnswer sv context history q)) \<longleftrightarrow>
     \<not> isErrorResponse (fst (fst (generateAnswer sv context history q)))"
  by (simp add: generateAnswer_def Let_def isErrorResponse_errorAnswer split: option.splits)

section \<open>Properties of the page numbers of a search\<close>

lemma set_setValues: "set (setValues seen xs) = set seen \<union> set xs"
  by (induction xs arbitrary: seen) auto

lemma distinct_setValues: "distinct seen \<Longrightarrow> distinct (setValues seen xs)"
  by (induction xs arbitrary: seen) auto

lemma set_keptPages: "set (keptPages pages) = {p. Some p \<in> set pages \<and> 0 < p}"
  by (auto simp: keptPages_def split: option.splits if_splits)

lemma searchPageNumbers_props:
  "sorted_wrt (<) (searchPageNumbers rs) \<and>
   set (searchPageNumbers rs) = {p. Some p \<in> pageNumber ` set rs \<and> 0 < p}"
  by (simp add: searchPageNumbers_def strict_sorted_iff distinct_setValues set_setValues set_keptPages)

lemma searchPageNumbers_positive: "p \<in> set (searchPageNumbers rs) \<Longrightarrow> 0 < p"
  using searchPageNumbers_props [of rs] by simp

lemma vectorSearch_pages:
  "snd (fst (vectorSearch sv q)) =
     (case vectorStore sv of None \<Rightarrow> []
      | Some similaritySearch \<Rightarrow>
          (case similaritySearch q 5 of None \<Rightarrow> [] | Some rs \<Rightarrow> searchPageNumbers rs))"
  by (simp add: vectorSearch_def split: option.splits)

section \<open>Properties of the answer pipeline\<close>

lemma exactMatchOf_Some:
  "exactMatchOf db q = Some t \<Longrightarrow> t \<in> set db \<and> question t = toLowerCase (trim q) \<and> success t"
  unfolding exactMatchOf_def by (auto simp: find_Some_iff)

lemma exactMatchOf_None:
  "exactMatchOf db q = None \<longleftrightarrow> (\<forall>c \<in> set db. \<not> (question c = toLowerCase (trim q) \<and> success c))"
  unfolding exactMatchOf_def by (auto simp: find_None_iff)

lemma trace_vectorSearch_no_generation: "filter isGeneration (snd (vectorSearch sv q)) = []"
  by (simp add: vectorSearch_def split: option.splits)

lemma trace_vectorSearch_no_save: "Save c \<notin> set (snd (vectorSearch sv q))"
  by (simp add: vectorSearch_def split: option.splits)

lemma trace_generateAnswer_no_save: "Save c \<notin> set (snd (generateAnswer sv context history q))"
  by (simp add: generateAnswer_def Let_def split: option.splits)

lemma generateAnswer_trace:
  "snd (generateAnswer sv context history q) =
     [LlmInvoke (promptFormat sv context
        (if history = [] then ''No previous conversation'' else history) q)]"
  by (simp add: generateAnswer_def Let_def split: option.splits)

lemma vectorSearch_trace_no_llm: "LlmInvoke p \<notin> set (snd (vectorSearch sv q))"
  by (simp add: vectorSearch_def split: option.splits)

lemma getAnswer_hit:
  assumes "chatModel sv" "\<not> findOneThrows sv" "\<not> saveThrows sv" "exactMatchOf db q = Some t"
  shows "getAnswer sv db q sid =
           \<lparr>response = \<lparr>replyMessageId = uuidv4 sv, replyAnswer = answer t,
                         replyPageNumbers = pageNumbers t, consistent = True\<rparr>,
            ledger = db @ [\<lparr>sessionId = sid, messageId = uuidv4 sv, question = trim q,
                             answer = answer t, pageNumbers = pageNumbers t,
                             rating = None, success = True, timestamp = now sv\<rparr>],
            trace = [FindOne (toLowerCase (trim q)),
                     Save \<lparr>sessionId = sid, messageId = uuidv4 sv, question = trim q,
                             answer = answer t, pageNumbers = pageNumbers t,
                             rating = None, success = True, timestamp = now sv\<rparr>]\<rparr>"
  using assms by (simp add: getAnswer_def getAnswerTry_def Let_def)

lemma getAnswer_consistent:
  assumes "consistent (response (getAnswer sv db q sid))"
  shows "chatModel sv \<and> \<not> findOneThrows sv \<and> \<not> saveThrows sv \<and> (\<exists>t. exactMatchOf db q = Some t)"
  using assms
  by (auto simp: getAnswer_def getAnswerTry_def Let_def split: if_splits option.splits)

lemma getAnswer_match_trace:
  assumes "exactMatchOf db q = Some t"
  shows "filter isRetrieval (trace (getAnswer sv db q sid)) = [] \<and>
         filter isGeneration (trace (getAnswer sv db q sid)) = []"
  using assms by (simp add: getAnswer_def getAnswerTry_def Let_def)

lemma getAnswer_hit_ledger:
  assumes "consistent (response (getAnswer sv db q sid))"
  shows "\<exists>t. exactMatchOf db q = Some t \<and>
             ledger (getAnswer sv db q sid) =
               db @ [\<lparr>sessionId = sid, messageId = uuidv4 sv, question = trim q,
                       answer = answer t, pageNumbers = pageNumbers t,
                       rating = None, success = True, timestamp = now sv\<rparr>]"
proof -
  from getAnswer_consistent [OF assms] obtain t where
    "chatModel sv" "\<not> findOneThrows sv" "\<not> saveThrows sv" "exactMatchOf db q = Some t"
    by blast
  then show ?thesis by (simp add: getAnswer_hit)
qed

lemma getAnswer_not_consistent_ledger:
  assumes "\<not> consistent (response (getAnswer sv db q sid))"
  shows "ledger (getAnswer sv db q sid) = db \<or>
         (\<exists>c. ledger (getAnswer sv db q sid) = db @ [c] \<and> question c = toLowerCase (trim q))"
  using assms
  by (auto simp: getAnswer_def getAnswerTry_def Let_def split: if_splits option.splits)

lemma getAnswer_empty_context:
  assumes "chatModel sv" "\<not> findOneThrows sv" "exactMatchOf db q = None" "\<not> findThrows sv"
    and "fst (fst (vectorSearch sv q)) = []"
  shows "getAnswerTry sv db q sid =
     (let newChat = \<lparr>sessionId = sid, messageId = uuidv4 sv,
                           question = toLowerCase (trim q), answer = informationNotAvailable,
                           pageNumbers = snd (fst (vectorSearch sv q)),
                           rating = None, success = False, timestamp = now sv\<rparr>;
          tr = [FindOne (toLowerCase (trim q)), Find sid] @ snd (vectorSearch sv q) @ [Save newChat]
      in if saveThrows sv then (Inl StoreError, db, tr)
         else (Inr \<lparr>replyMessageId = uuidv4 sv, replyAnswer = informationNotAvailable,
                          replyPageNumbers = snd (fst (vectorSearch sv q)), consistent = False\<rparr>,
                     db @ [newChat], tr))"
  using assms by (simp add: getAnswerTry_def Let_def)

lemma getAnswerTry_miss_saves:
  assumes "exactMatchOf db q = None" and "Save c \<in> set (snd (snd (getAnswerTry sv db q sid)))"
  shows "success c \<longleftrightarrow> \<not> isErrorResponse (answer c)"
  using assms
  by (auto simp: getAnswerTry_def Let_def trace_vectorSearch_no_save trace_generateAnswer_no_save
        generateAnswer_classified isErrorResponse_informationNotAvailable
      split: if_splits)

lemma getAnswer_miss_saves:
  assumes "exactMatchOf db q = None" and "Save c \<in> set (trace (getAnswer sv db q sid))"
  shows "success c \<longleftrightarrow> \<not> isErrorResponse (answer c)"
proof (cases "chatModel sv")
  case False
  then show ?thesis using assms(2) by (simp add: getAnswer_def)
next
  case True
  obtain r db' tr where t: "getAnswerTry sv db q sid = (r, db', tr)" by (cases "getAnswerTry sv db q sid")
  show ?thesis
  proof (cases r)
    case (Inr rep)
    then have "Save c \<in> set (snd (snd (getAnswerTry sv db q sid)))"
      using assms(2) True t by (simp add: getAnswer_def)
    then show ?thesis by (rule getAnswerTry_miss_saves [OF assms(1)])
  next
    case (Inl e)
    then have "Save c \<in> set (snd (snd (getAnswerTry sv db q sid))) \<or>
               (answer c = errorAnswer \<and> \<not> success c)"
      using assms(2) True t by (auto simp: getAnswer_def Let_def)
    then show ?thesis
      using getAnswerTry_miss_saves [OF assms(1)] isErrorResponse_errorAnswer by auto
  qed
qed

lemma getAnswer_ledger_from_saves:
  "\<exists>new. ledger (getAnswer sv db q sid) = db @ new \<and> length new \<le> 1 \<and>
         (\<forall>c \<in> set new. Save c \<in> set (trace (getAnswer sv db q sid)))"
  by (auto simp: getAnswer_def getAnswerTry_def Let_def split: if_splits option.splits)

lemma getAnswer_miss_pages:
  assumes "exactMatchOf db q = None"
  shows "replyPageNumbers (response (getAnswer sv db q sid)) = [] \<or>
         replyPageNumbers (response (getAnswer sv db q sid)) = snd (fst (vectorSearch sv q))"
  using assms by (auto simp: getAnswer_def getAnswerTry_def Let_def split: if_splits)

lemma getAnswer_prompt:
  assumes "LlmInvoke p \<in> set (trace (getAnswer sv db q sid))"
  shows "p = promptFormat sv (fst (fst (vectorSearch sv q)))
               (if conversationHistory (recentChats db sid) = [] then ''No previous conversation''
                else conversationHistory (recentChats db sid)) q"
  using assms
  by (auto simp: getAnswer_def getAnswerTry_def Let_def generateAnswer_trace
        vectorSearch_trace_no_llm split: if_splits option.splits)

lemma ex_match: "exactMatchOf exampleLedger ''  What is JCI? '' = Some exampleTurn"
  by code_simp

lemma ex_nomatch: "exactMatchOf exampleLedger '' Hand Hygiene '' = None"
  by code_simp

subsection \<open>The consistency cache\<close>

text \<open>
  Claim C1, as the code has it.  When the ledger holds a successful turn whose stored question
  is the trimmed, lower-cased question of the request, the request invokes neither the
  similarity search nor the model, whatever else happens; and when the model is registered and
  neither the lookup nor the save of the request's turn raises, the reply carries the answer
  and the page numbers of that stored turn unchanged.
\<close>

theorem cache_hit_reply:
  assumes "exactMatchOf db q = Some t"
  shows "t \<in> set db \<and> question t = toLowerCase (trim q) \<and> success t \<and>
         filter isRetrieval (trace (getAnswer sv db q sid)) = [] \<and>
         filter isGeneration (trace (getAnswer sv db q sid)) = [] \<and>
         (chatModel sv \<and> \<not> findOneThrows sv \<and> \<not> saveThrows sv \<longrightarrow>
            replyAnswer (response (getAnswer sv db q sid)) = answer t \<and>
            replyPageNumbers (response (getAnswer sv db q sid)) = pageNumbers t)"
  using exactMatchOf_Some [OF assms] getAnswer_match_trace [OF assms]
  by (simp add: getAnswer_hit assms)

text \<open>A run of it: a question that differs from the stored one in case and white space.\<close>

theorem cache_hit_reply_witness:
  "exactMatchOf exampleLedger ''  What is JCI? '' = Some exampleTurn \<and>
   replyAnswer (response (getAnswer exampleServices exampleLedger ''  What is JCI? '' ''s7''))
     = ''JCI is an accreditation body.'' \<and>
   replyPageNumbers (response (getAnswer exampleServices exampleLedger ''  What is JCI? '' ''s7''))
     = [2, 5] \<and>
   filter isRetrieval (trace (getAnswer exampleServices exampleLedger ''  What is JCI? '' ''s7'')) = [] \<and>
   filter isGeneration (trace (getAnswer exampleServices exampleLedger ''  What is JCI? '' ''s7'')) = []"
proof -
  have sv: "chatModel exampleServices \<and> \<not> findOneThrows exampleServices \<and> \<not> saveThrows exampleServices"
    by (simp add: exampleServices_def)
  have t: "answer exampleTurn = ''JCI is an accreditation body.'' \<and> pageNumbers exampleTurn = [2, 5]"
    by (simp add: exampleTurn_def)
  show ?thesis
    using cache_hit_reply [OF ex_match, of exampleServices "''s7''"] sv t ex_match by simp
qed

text \<open>
  Without the proviso the claim fails: the same request, with a save that raises, ends in the
  outer handler and is answered with the fixed error text.
\<close>

theorem cache_hit_reply_fails_when_save_throws:
  "exactMatchOf exampleLedger ''  What is JCI? '' = Some exampleTurn \<and>
   replyAnswer (response (getAnswer (exampleServices\<lparr>saveThrows := True\<rparr>) exampleLedger
                  ''  What is JCI? '' ''s7'')) = errorAnswer \<and>
   errorAnswer \<noteq> answer exampleTurn"
  by code_simp

text \<open>
  Claim C7, as the code has it.  On a cache hit, provided the model is registered and neither
  the lookup nor the save of the request's turn raises, the request is answered from the cache
  and appends exactly one turn to the ledger: the session and identifier of the request, the
  trimmed question, the answer and page numbers of the stored turn, \<open>success = True\<close>; the
  turns already stored are unchanged.  Conversely a request answered from the cache is such a
  request, and has appended such a turn.
\<close>

theorem cache_hit_appends_turn:
  "(exactMatchOf db q = Some t \<and> chatModel sv \<and> \<not> findOneThrows sv \<and> \<not> saveThrows sv \<longrightarrow>
      consistent (response (getAnswer sv db q sid)) \<and>
      ledger (getAnswer sv db q sid) =
        db @ [\<lparr>sessionId = sid, messageId = uuidv4 sv, question = trim q,
                answer = answer t, pageNumbers = pageNumbers t,
                rating = None, success = True, timestamp = now sv\<rparr>]) \<and>
   (consistent (response (getAnswer sv db q sid)) \<longrightarrow>
      chatModel sv \<and> \<not> findOneThrows sv \<and> \<not> saveThrows sv \<and>
      (\<exists>m. exactMatchOf db q = Some m \<and>
           ledger (getAnswer sv db q sid) =
             db @ [\<lparr>sessionId = sid, messageId = uuidv4 sv, question = trim q,
                     answer = answer m, pageNumbers = pageNumbers m,
                     rating = None, success = True, timestamp = now sv\<rparr>]))"
proof (intro conjI impI)
  assume a: "exactMatchOf db q = Some t \<and> chatModel sv \<and> \<not> findOneThrows sv \<and> \<not> saveThrows sv"
  then have g: "getAnswer sv db q sid =
           \<lparr>response = \<lparr>replyMessageId = uuidv4 sv, replyAnswer = answer t,
                         replyPageNumbers = pageNumbers t, consistent = True\<rparr>,
            ledger = db @ [\<lparr>sessionId = sid, messageId = uuidv4 sv, question = trim q,
                             answer = answer t, pageNumbers = pageNumbers t,
                             rating = None, success = True, timestamp = now sv\<rparr>],
            trace = [FindOne (toLowerCase (trim q)),
                     Save \<lparr>sessionId = sid, messageId = uuidv4 sv, question = trim q,
                             answer = answer t, pageNumbers = pageNumbers t,
                             rating = None, success = True, timestamp = now sv\<rparr>]\<rparr>"
    by (intro getAnswer_hit) simp_all
  show "consistent (response (getAnswer sv db q sid))" by (simp add: g)
  show "ledger (getAnswer sv db q sid) =
        db @ [\<lparr>sessionId = sid, messageId = uuidv4 sv, question = trim q,
                answer = answer t, pageNumbers = pageNumbers t,
                rating = None, success = True, timestamp = now sv\<rparr>]" by (simp add: g)
next
  assume c: "consistent (response (getAnswer sv db q sid))"
  from getAnswer_consistent [OF c] show "chatModel sv" "\<not> findOneThrows sv" "\<not> saveThrows sv"
    by simp_all
  from getAnswer_hit_ledger [OF c]
  show "\<exists>m. exactMatchOf db q = Some m \<and>
           ledger (getAnswer sv db q sid) =
             db @ [\<lparr>sessionId = sid, messageId = uuidv4 sv, question = trim q,
                     answer = answer m, pageNumbers = pageNumbers m,
                     rating = None, success = True, timestamp = now sv\<rparr>]" .
qed

text \<open>A run of it.\<close>

theorem cache_hit_appends_turn_witness:
  "exactMatchOf exampleLedger ''  What is JCI? '' = Some exampleTurn \<and>
   chatModel exampleServices \<and> \<not> findOneThrows exampleServices \<and> \<not> saveThrows exampleServices \<and>
   consistent (response (getAnswer exampleServices exampleLedger ''  What is JCI? '' ''s7'')) \<and>
   ledger (getAnswer exampleServices exampleLedger ''  What is JCI? '' ''s7'') =
     exampleLedger @
       [\<lparr>sessionId = ''s7'', messageId = ''m9'', question = ''What is JCI?'',
         answer = ''JCI is an accreditation body.'', pageNumbers = [2, 5], rating = None,
         success = True, timestamp = 900\<rparr>]"
proof -
  have sv: "chatModel exampleServices \<and> \<not> findOneThrows exampleServices \<and> \<not> saveThrows exampleServices"
    by (simp add: exampleServices_def)
  have t: "trim ''  What is JCI? '' = ''What is JCI?''" by code_simp
  have e: "answer exampleTurn = ''JCI is an accreditation body.'' \<and> pageNumbers exampleTurn = [2, 5]
      \<and> uuidv4 exampleServices = ''m9'' \<and> now exampleServices = 900"
    by (simp add: exampleTurn_def exampleServices_def)
  from cache_hit_appends_turn [of exampleLedger "''  What is JCI? ''" exampleTurn exampleServices "''s7''"]
  show ?thesis using ex_match sv t e by simp
qed

text \<open>The claim, that a cache hit leaves the ledger unchanged, fails on that run.\<close>

theorem cache_hit_changes_ledger:
  "consistent (response (getAnswer exampleServices exampleLedger ''  What is JCI? '' ''s7'')) \<and>
   ledger (getAnswer exampleServices exampleLedger ''  What is JCI? '' ''s7'') \<noteq> exampleLedger \<and>
   length (ledger (getAnswer exampleServices exampleLedger ''  What is JCI? '' ''s7'')) =
     length exampleLedger + 1"
  by code_simp

text \<open>
  Claim C10.  The turn appended by a request answered from the cache stores the question
  trimmed, with its case; the turn appended by any other request stores it trimmed and in
  lower case.
\<close>

theorem stored_question_form:
  "(consistent (response (getAnswer sv db q sid)) \<longrightarrow>
      (\<exists>c. ledger (getAnswer sv db q sid) = db @ [c] \<and> question c = trim q)) \<and>
   (\<not> consistent (response (getAnswer sv db q sid)) \<longrightarrow>
      ledger (getAnswer sv db q sid) = db \<or>
      (\<exists>c. ledger (getAnswer sv db q sid) = db @ [c] \<and> question c = toLowerCase (trim q)))"
proof (cases "consistent (response (getAnswer sv db q sid))")
  case True
  from getAnswer_hit_ledger [OF True] show ?thesis using True by auto
next
  case False
  from getAnswer_not_consistent_ledger [OF False] show ?thesis using False by simp
qed

text \<open>A run of each kind; the two forms differ for a question with capital letters.\<close>

theorem stored_question_form_witness:
  "consistent (response (getAnswer exampleServices exampleLedger ''  What is JCI? '' ''s7'')) \<and>
   (\<exists>c. ledger (getAnswer exampleServices exampleLedger ''  What is JCI? '' ''s7'') = exampleLedger @ [c] \<and>
        question c = ''What is JCI?'') \<and>
   \<not> consistent (response (getAnswer exampleServices exampleLedger '' Hand Hygiene '' ''s7'')) \<and>
   (\<exists>c. ledger (getAnswer exampleServices exampleLedger '' Hand Hygiene '' ''s7'') = exampleLedger @ [c] \<and>
        question c = ''hand hygiene'') \<and>
   toLowerCase ''What is JCI?'' \<noteq> ''What is JCI?''"
proof -
  have c: "consistent (response (getAnswer exampleServices exampleLedger ''  What is JCI? '' ''s7''))"
    by code_simp
  have n: "\<not> consistent (response (getAnswer exampleServices exampleLedger '' Hand Hygiene '' ''s7''))"
    by code_simp
  have l: "ledger (getAnswer exampleServices exampleLedger '' Hand Hygiene '' ''s7'') \<noteq> exampleLedger"
    by code_simp
  have t: "trim ''  What is JCI? '' = ''What is JCI?'' \<and>
           toLowerCase (trim '' Hand Hygiene '') = ''hand hygiene'' \<and>
           toLowerCase ''What is JCI?'' \<noteq> ''What is JCI?''"
    by code_simp
  from stored_question_form [of exampleServices exampleLedger "''  What is JCI? ''" "''s7''"]
    stored_question_form [of exampleServices exampleLedger "'' Hand Hygiene ''" "''s7''"]
  show ?thesis using c n l t by simp
qed

subsection \<open>Empty context\<close>

text \<open>
  Claim C2, as the code has it.  On the cache-miss path (model registered, lookup and history
  query answered, no stored match), an empty context means: the model is not invoked, the turn
  handed to \<^verbatim>\<open>save\<close> carries the fixed text and \<open>success = False\<close>; and when that save does
  not raise, the reply is the fixed text and the ledger grows by exactly that turn.
\<close>

theorem empty_context_short_circuit:
  assumes "chatModel sv" "\<not> findOneThrows sv" "exactMatchOf db q = None" "\<not> findThrows sv"
    and "fst (fst (vectorSearch sv q)) = []"
  shows "filter isGeneration (trace (getAnswer sv db q sid)) = [] \<and>
         Save \<lparr>sessionId = sid, messageId = uuidv4 sv,
                question = toLowerCase (trim q), answer = informationNotAvailable,
                pageNumbers = snd (fst (vectorSearch sv q)),
                rating = None, success = False, timestamp = now sv\<rparr>
           \<in> set (trace (getAnswer sv db q sid)) \<and>
         (\<not> saveThrows sv \<longrightarrow>
            replyAnswer (response (getAnswer sv db q sid)) = informationNotAvailable \<and>
            ledger (getAnswer sv db q sid) =
              db @ [\<lparr>sessionId = sid, messageId = uuidv4 sv,
                      question = toLowerCase (trim q), answer = informationNotAvailable,
                      pageNumbers = snd (fst (vectorSearch sv q)),
                      rating = None, success = False, timestamp = now sv\<rparr>])"
  using assms(1)
  by (simp add: getAnswer_def getAnswer_empty_context [OF assms] Let_def
        trace_vectorSearch_no_generation)

text \<open>A run of it, with no vector store connected.\<close>

theorem empty_context_short_circuit_witness:
  "chatModel (exampleServices\<lparr>vectorStore := None\<rparr>) \<and>
   \<not> findOneThrows (exampleServices\<lparr>vectorStore := None\<rparr>) \<and>
   exactMatchOf exampleLedger '' Hand Hygiene '' = None \<and>
   \<not> findThrows (exampleServices\<lparr>vectorStore := None\<rparr>) \<and>
   fst (fst (vectorSearch (exampleServices\<lparr>vectorStore := None\<rparr>) '' Hand Hygiene '')) = [] \<and>
   \<not> saveThrows (exampleServices\<lparr>vectorStore := None\<rparr>) \<and>
   filter isGeneration
     (trace (getAnswer (exampleServices\<lparr>vectorStore := None\<rparr>) exampleLedger '' Hand Hygiene '' ''s7'')) = [] \<and>
   replyAnswer
     (response (getAnswer (exampleServices\<lparr>vectorStore := None\<rparr>) exampleLedger '' Hand Hygiene '' ''s7''))
     = informationNotAvailable \<and>
   ledger (getAnswer (exampleServices\<lparr>vectorStore := None\<rparr>) exampleLedger '' Hand Hygiene '' ''s7'')
     = exampleLedger @
       [\<lparr>sessionId = ''s7'', messageId = ''m9'', question = ''hand hygiene'',
         answer = informationNotAvailable, pageNumbers = [], rating = None, success = False,
         timestamp = 900\<rparr>]"
proof -
  have sv: "chatModel (exampleServices\<lparr>vectorStore := None\<rparr>) \<and>
      \<not> findOneThrows (exampleServices\<lparr>vectorStore := None\<rparr>) \<and>
      \<not> findThrows (exampleServices\<lparr>vectorStore := None\<rparr>) \<and>
      \<not> saveThrows (exampleServices\<lparr>vectorStore := None\<rparr>) \<and>
      uuidv4 (exampleServices\<lparr>vectorStore := None\<rparr>) = ''m9'' \<and>
      now (exampleServices\<lparr>vectorStore := None\<rparr>) = 900"
    by (simp add: exampleServices_def)
  have vs: "vectorSearch (exampleServices\<lparr>vectorStore := None\<rparr>) '' Hand Hygiene '' = (([], []), [])"
    by (simp add: vectorSearch_def)
  have q: "toLowerCase (trim '' Hand Hygiene '') = ''hand hygiene''" by code_simp
  have "fst (fst (vectorSearch (exampleServices\<lparr>vectorStore := None\<rparr>) '' Hand Hygiene '')) = []"
    by (simp add: vs)
  from empty_context_short_circuit [OF _ _ ex_nomatch _ this, of "''s7''"] sv
  show ?thesis using ex_nomatch by (simp add: vs q)
qed

text \<open>
  Without the proviso the claim fails: when the save raises, the reply is the error text, and
  the turn that reaches the ledger is the error turn.
\<close>

theorem empty_context_fails_when_save_throws:
  "chatModel (exampleServices\<lparr>vectorStore := None, saveThrows := True\<rparr>) \<and>
   \<not> findOneThrows (exampleServices\<lparr>vectorStore := None, saveThrows := True\<rparr>) \<and>
   exactMatchOf exampleLedger '' Hand Hygiene '' = None \<and>
   \<not> findThrows (exampleServices\<lparr>vectorStore := None, saveThrows := True\<rparr>) \<and>
   fst (fst (vectorSearch (exampleServices\<lparr>vectorStore := None, saveThrows := True\<rparr>) '' Hand Hygiene '')) = [] \<and>
   replyAnswer (response (getAnswer (exampleServices\<lparr>vectorStore := None, saveThrows := True\<rparr>)
                  exampleLedger '' Hand Hygiene '' ''s7'')) = errorAnswer \<and>
   errorAnswer \<noteq> informationNotAvailable \<and>
   ledger (getAnswer (exampleServices\<lparr>vectorStore := None, saveThrows := True\<rparr>)
             exampleLedger '' Hand Hygiene '' ''s7'')
     = exampleLedger @
       [\<lparr>sessionId = ''s7'', messageId = ''m9'', question = ''hand hygiene'',
         answer = errorAnswer, pageNumbers = [], rating = None, success = False,
         timestamp = 900\<rparr>]"
  by code_simp

subsection \<open>Page numbers of a reply\<close>

lemma ascendingPages_Nil: "ascendingPages []"
  by (simp add: ascendingPages_def)

lemma ascendingPages_searchPageNumbers: "ascendingPages (searchPageNumbers rs)"
  using searchPageNumbers_props [of rs] searchPageNumbers_positive [of _ rs]
  by (auto simp: ascendingPages_def strict_sorted_iff list_all_iff)

lemma ascendingPages_vectorSearch: "ascendingPages (snd (fst (vectorSearch sv q)))"
  by (simp add: vectorSearch_pages ascendingPages_Nil ascendingPages_searchPageNumbers
        split: option.splits)

lemma getAnswer_pages_cases:
  "(replyPageNumbers (response (getAnswer sv db q sid)) = [] \<or>
    replyPageNumbers (response (getAnswer sv db q sid)) = snd (fst (vectorSearch sv q)) \<or>
    (\<exists>t \<in> set db. replyPageNumbers (response (getAnswer sv db q sid)) = pageNumbers t)) \<and>
   (\<exists>new. ledger (getAnswer sv db q sid) = db @ new \<and>
      (\<forall>c \<in> set new. pageNumbers c = [] \<or> pageNumbers c = snd (fst (vectorSearch sv q)) \<or>
                        (\<exists>t \<in> set db. pageNumbers c = pageNumbers t)))"
proof (cases "exactMatchOf db q")
  case None
  then show ?thesis
    by (auto simp: getAnswer_def getAnswerTry_def Let_def split: if_splits)
next
  case (Some t)
  then have "t \<in> set db" by (simp add: exactMatchOf_Some)
  then show ?thesis using Some
    by (auto simp: getAnswer_def getAnswerTry_def Let_def split: if_splits)
qed

lemma getAnswer_pages_invariant:
  assumes "\<forall>c \<in> set db. ascendingPages (pageNumbers c)"
  shows "ascendingPages (replyPageNumbers (response (getAnswer sv db q sid))) \<and>
         (\<forall>c \<in> set (ledger (getAnswer sv db q sid)). ascendingPages (pageNumbers c))"
proof -
  have ok: "ascendingPages ps"
    if "ps = [] \<or> ps = snd (fst (vectorSearch sv q)) \<or> (\<exists>t \<in> set db. ps = pageNumbers t)" for ps
    using that assms ascendingPages_Nil ascendingPages_vectorSearch [of sv q] by blast
  from getAnswer_pages_cases [of sv db q sid] obtain new where
    r: "replyPageNumbers (response (getAnswer sv db q sid)) = [] \<or>
        replyPageNumbers (response (getAnswer sv db q sid)) = snd (fst (vectorSearch sv q)) \<or>
        (\<exists>t \<in> set db. replyPageNumbers (response (getAnswer sv db q sid)) = pageNumbers t)"
    and l: "ledger (getAnswer sv db q sid) = db @ new"
    and n: "\<forall>c \<in> set new. pageNumbers c = [] \<or> pageNumbers c = snd (fst (vectorSearch sv q)) \<or>
                        (\<exists>t \<in> set db. pageNumbers c = pageNumbers t)"
    by blast
  have "ascendingPages (replyPageNumbers (response (getAnswer sv db q sid)))" using r by (rule ok)
  moreover have "\<forall>c \<in> set new. ascendingPages (pageNumbers c)" using n ok by blast
  ultimately show ?thesis using assms l by auto
qed

text \<open>
  Claim C3.  The page numbers computed from a search are ascending without duplicates and
  all positive, and as a set they are the positive pages of the passages returned.  The reply
  of every request that is not answered from the cache carries such a list: the one of its
  search, or the empty list.  And as long as every stored turn has such a list, so has every
  reply, served from the cache or not, and every turn of the ledger afterwards.
\<close>

theorem page_numbers_ascending:
  "ascendingPages (searchPageNumbers rs) \<and>
   set (searchPageNumbers rs) = {p. Some p \<in> pageNumber ` set rs \<and> 0 < p} \<and>
   (exactMatchOf db q = None \<longrightarrow>
      ascendingPages (replyPageNumbers (response (getAnswer sv db q sid))) \<and>
      (\<forall>similaritySearch rs'.
          replyPageNumbers (response (getAnswer sv db q sid)) \<noteq> [] \<longrightarrow>
          vectorStore sv = Some similaritySearch \<longrightarrow> similaritySearch q 5 = Some rs' \<longrightarrow>
          replyPageNumbers (response (getAnswer sv db q sid)) = searchPageNumbers rs')) \<and>
   ((\<forall>c \<in> set db. ascendingPages (pageNumbers c)) \<longrightarrow>
      ascendingPages (replyPageNumbers (response (getAnswer sv db q sid))) \<and>
      (\<forall>c \<in> set (ledger (getAnswer sv db q sid)). ascendingPages (pageNumbers c)))"
proof (intro conjI impI allI)
  show "ascendingPages (searchPageNumbers rs)" by (rule ascendingPages_searchPageNumbers)
  show "set (searchPageNumbers rs) = {p. Some p \<in> pageNumber ` set rs \<and> 0 < p}"
    using searchPageNumbers_props [of rs] by simp
  show "ascendingPages (replyPageNumbers (response (getAnswer sv db q sid)))"
    if "exactMatchOf db q = None"
    using getAnswer_miss_pages [OF that, of sv sid] ascendingPages_vectorSearch [of sv q]
      ascendingPages_Nil by auto
  show "replyPageNumbers (response (getAnswer sv db q sid)) = searchPageNumbers rs'"
    if "exactMatchOf db q = None" "replyPageNumbers (response (getAnswer sv db q sid)) \<noteq> []"
       "vectorStore sv = Some similaritySearch" "similaritySearch q 5 = Some rs'"
    for similaritySearch rs'
    using getAnswer_miss_pages [OF that(1), of sv sid] that(2-4)
    by (simp add: vectorSearch_pages)
  show "ascendingPages (replyPageNumbers (response (getAnswer sv db q sid)))"
    if "\<forall>c \<in> set db. ascendingPages (pageNumbers c)"
    using getAnswer_pages_invariant [OF that] by blast
  show "\<forall>c \<in> set (ledger (getAnswer sv db q sid)). ascendingPages (pageNumbers c)"
    if "\<forall>c \<in> set db. ascendingPages (pageNumbers c)"
    using getAnswer_pages_invariant [OF that] by blast
qed

text \<open>A run of it, on passages with a repeated page, a page 0 and a missing page.\<close>

theorem page_numbers_ascending_witness:
  "exactMatchOf exampleLedger '' Hand Hygiene '' = None \<and>
   searchPageNumbers examplePassages = [1, 3] \<and>
   replyPageNumbers (response (getAnswer exampleServices exampleLedger '' Hand Hygiene '' ''s7'')) = [1, 3] \<and>
   ascendingPages (replyPageNumbers (response (getAnswer exampleServices exampleLedger '' Hand Hygiene '' ''s7''))) \<and>
   set (searchPageNumbers examplePassages) = {p. Some p \<in> pageNumber ` set examplePassages \<and> 0 < p} \<and>
   list_all (\<lambda>c. ascendingPages (pageNumbers c)) exampleLedger \<and>
   list_all (\<lambda>c. ascendingPages (pageNumbers c))
     (ledger (getAnswer exampleServices exampleLedger ''  What is JCI? '' ''s7''))"
proof -
  have a: "searchPageNumbers examplePassages = [1, 3]" by code_simp
  have b: "replyPageNumbers (response (getAnswer exampleServices exampleLedger '' Hand Hygiene '' ''s7'')) = [1, 3]"
    by code_simp
  have c: "list_all (\<lambda>c. ascendingPages (pageNumbers c)) exampleLedger" by code_simp
  then have c': "\<forall>c \<in> set exampleLedger. ascendingPages (pageNumbers c)" by (simp only: list_all_iff)
  note t1 = page_numbers_ascending [of examplePassages exampleLedger "'' Hand Hygiene ''" exampleServices "''s7''"]
  note t2 = page_numbers_ascending [of examplePassages exampleLedger "''  What is JCI? ''" exampleServices "''s7''"]
  have 1: "ascendingPages (replyPageNumbers (response (getAnswer exampleServices exampleLedger '' Hand Hygiene '' ''s7'')))"
    using t1 ex_nomatch by blast
  have 2: "set (searchPageNumbers examplePassages) = {p. Some p \<in> pageNumber ` set examplePassages \<and> 0 < p}"
    using t1 by blast
  have 3: "\<forall>c \<in> set (ledger (getAnswer exampleServices exampleLedger ''  What is JCI? '' ''s7'')).
             ascendingPages (pageNumbers c)"
    using t2 c' by blast
  show ?thesis using ex_nomatch a b c 1 2 3 by (simp only: list_all_iff simp_thms)
qed

subsection \<open>The context window\<close>

lemma recentChats_length: "length (recentChats db sid) \<le> 3"
  by (simp add: recentChats_def)

lemma recentChats_eligible:
  "c \<in> set (recentChats db sid) \<Longrightarrow> c \<in> set db \<and> sessionId c = sid \<and> success c"
  unfolding recentChats_def by (auto dest: in_set_takeD)

lemma sorted_newest_first:
  "sorted_wrt (\<lambda>a b. timestamp b \<le> timestamp a) (sort_key (\<lambda>c. - timestamp c) xs)"
proof -
  have "sorted (map (\<lambda>c. - timestamp c) (sort_key (\<lambda>c. - timestamp c) xs))"
    by (rule sorted_sort_key)
  then show ?thesis by (simp add: sorted_map)
qed

lemma recentChats_oldest_first: "sorted (map timestamp (rev (recentChats db sid)))"
proof -
  have "sorted_wrt (\<lambda>a b. timestamp b \<le> timestamp a) (recentChats db sid)"
    unfolding recentChats_def by (intro sorted_wrt_take sorted_newest_first)
  then show ?thesis by (simp add: sorted_map sorted_wrt_rev)
qed

lemma recentChats_most_recent:
  "\<exists>older. mset (recentChats db sid @ older) = mset (filter (\<lambda>c. sessionId c = sid \<and> success c) db) \<and>
           (\<forall>old \<in> set older. \<forall>c \<in> set (recentChats db sid). timestamp old \<le> timestamp c) \<and>
           (older \<noteq> [] \<longrightarrow> length (recentChats db sid) = 3)"
proof -
  define s where "s = sort_key (\<lambda>c. - timestamp c) (filter (\<lambda>c. sessionId c = sid \<and> success c) db)"
  have r: "recentChats db sid = take 3 s" by (simp add: recentChats_def s_def)
  have "sorted_wrt (\<lambda>a b. timestamp b \<le> timestamp a) (take 3 s @ drop 3 s)"
    using sorted_newest_first [of "filter (\<lambda>c. sessionId c = sid \<and> success c) db"]
    by (simp add: s_def)
  then have 1: "\<forall>old \<in> set (drop 3 s). \<forall>c \<in> set (take 3 s). timestamp old \<le> timestamp c"
    unfolding sorted_wrt_append by blast
  have 2: "mset (take 3 s @ drop 3 s) = mset (filter (\<lambda>c. sessionId c = sid \<and> success c) db)"
    by (simp add: s_def)
  have 3: "drop 3 s \<noteq> [] \<longrightarrow> length (take 3 s) = 3" by auto
  show ?thesis unfolding r using 1 2 3 by blast
qed

text \<open>
  Claim C8.  The turns that make up the history are at most three, all of the session and all
  successful; read oldest first they are in order of time; no eligible turn left out is newer
  than one taken, and none is left out while fewer than three are taken.  Every prompt sent to
  the model is built from exactly these turns, oldest first.
\<close>

theorem context_window:
  "length (recentChats db sid) \<le> 3 \<and>
   (\<forall>c \<in> set (recentChats db sid). c \<in> set db \<and> sessionId c = sid \<and> success c) \<and>
   sorted (map timestamp (rev (recentChats db sid))) \<and>
   (\<exists>older. mset (recentChats db sid @ older) = mset (filter (\<lambda>c. sessionId c = sid \<and> success c) db) \<and>
           (\<forall>old \<in> set older. \<forall>c \<in> set (recentChats db sid). timestamp old \<le> timestamp c) \<and>
           (older \<noteq> [] \<longrightarrow> length (recentChats db sid) = 3)) \<and>
   (\<forall>p. LlmInvoke p \<in> set (trace (getAnswer sv db q sid)) \<longrightarrow>
      p = promptFormat sv (fst (fst (vectorSearch sv q)))
            (if conversationHistory (recentChats db sid) = [] then ''No previous conversation''
             else join ''\<newline>\<newline>''
                    (map (\<lambda>c. ''Q: '' @ question c @ ''\<newline>A: '' @ answer c)
                       (rev (recentChats db sid)))) q)"
  using recentChats_length [of db sid] recentChats_eligible [of _ db sid]
    recentChats_oldest_first [of db sid] recentChats_most_recent [of db sid]
    getAnswer_prompt [of _ sv db q sid]
  unfolding conversationHistory_def by blast

text \<open>
  A run of it: of the five turns of session \<open>s1\<close>, one failed and the oldest is the fourth
  successful one; the prompt holds the three others, oldest first.
\<close>

theorem context_window_witness:
  "recentChats exampleLedger ''s1'' =
     [\<lparr>sessionId = ''s1'', messageId = ''m6'', question = ''q6'', answer = ''a6'',
       pageNumbers = [], rating = None, success = True, timestamp = 600\<rparr>,
      \<lparr>sessionId = ''s1'', messageId = ''m5'', question = ''q5'', answer = ''a5'',
       pageNumbers = [], rating = None, success = True, timestamp = 500\<rparr>,
      \<lparr>sessionId = ''s1'', messageId = ''m2'', question = ''q2'', answer = ''a2'',
       pageNumbers = [], rating = None, success = True, timestamp = 200\<rparr>] \<and>
   length (recentChats exampleLedger ''s1'') \<le> 3 \<and>
   sorted (map timestamp (rev (recentChats exampleLedger ''s1''))) \<and>
   LlmInvoke (''Q: q2\<newline>A: a2\<newline>\<newline>Q: q5\<newline>A: a5\<newline>\<newline>Q: q6\<newline>A: a6'' @ ''|'' @ '' Hand Hygiene '')
     \<in> set (trace (getAnswer exampleServices exampleLedger '' Hand Hygiene '' ''s1''))"
proof -
  have r: "recentChats exampleLedger ''s1'' =
     [\<lparr>sessionId = ''s1'', messageId = ''m6'', question = ''q6'', answer = ''a6'',
       pageNumbers = [], rating = None, success = True, timestamp = 600\<rparr>,
      \<lparr>sessionId = ''s1'', messageId = ''m5'', question = ''q5'', answer = ''a5'',
       pageNumbers = [], rating = None, success = True, timestamp = 500\<rparr>,
      \<lparr>sessionId = ''s1'', messageId = ''m2'', question = ''q2'', answer = ''a2'',
       pageNumbers = [], rating = None, success = True, timestamp = 200\<rparr>]"
    by code_simp
  have t: "LlmInvoke (''Q: q2\<newline>A: a2\<newline>\<newline>Q: q5\<newline>A: a5\<newline>\<newline>Q: q6\<newline>A: a6'' @ ''|'' @ '' Hand Hygiene '')
     \<in> set (trace (getAnswer exampleServices exampleLedger '' Hand Hygiene '' ''s1''))"
    by code_simp
  from context_window [of exampleLedger "''s1''" exampleServices "'' Hand Hygiene ''"]
  have "length (recentChats exampleLedger ''s1'') \<le> 3 \<and>
        sorted (map timestamp (rev (recentChats exampleLedger ''s1'')))"
    by blast
  then show ?thesis using r t by simp
qed

subsection \<open>Classification before persistence\<close>

text \<open>
  Claim C9.  On a request that finds no stored match, every turn handed to \<^verbatim>\<open>save\<close> has been
  classified: it is marked unsuccessful exactly when its answer contains one of the failure
  signatures, whatever the case of the letters; and the ledger only grows by such turns.
\<close>

theorem failure_signature_marks_turn:
  assumes "exactMatchOf db q = None"
  shows "(\<forall>c. Save c \<in> set (trace (getAnswer sv db q sid)) \<longrightarrow>
            ((\<exists>phrase \<in> set errorPatterns. containsIgnoringCase (answer c) phrase) \<longleftrightarrow> \<not> success c)) \<and>
         (\<exists>new. ledger (getAnswer sv db q sid) = db @ new \<and>
            (\<forall>c \<in> set new. Save c \<in> set (trace (getAnswer sv db q sid))))"
proof -
  have "\<exists>new. ledger (getAnswer sv db q sid) = db @ new \<and>
            (\<forall>c \<in> set new. Save c \<in> set (trace (getAnswer sv db q sid)))"
    using getAnswer_ledger_from_saves [of sv db q sid] by blast
  then show ?thesis
    using getAnswer_miss_saves [OF assms] by (simp add: isErrorResponse_iff)
qed

text \<open>A run of it with a model that apologises, and one with a model that answers.\<close>

theorem failure_signature_marks_turn_witness:
  "exactMatchOf exampleLedger '' Hand Hygiene '' = None \<and>
   Save \<lparr>sessionId = ''s7'', messageId = ''m9'', question = ''hand hygiene'',
          answer = ''Sorry, something went wrong.'', pageNumbers = [1, 3], rating = None,
          success = False, timestamp = 900\<rparr>
     \<in> set (trace (getAnswer (exampleServices\<lparr>llm := (\<lambda>p. Some ''Sorry, something went wrong.'')\<rparr>)
                     exampleLedger '' Hand Hygiene '' ''s7'')) \<and>
   (\<exists>phrase \<in> set errorPatterns. containsIgnoringCase ''Sorry, something went wrong.'' phrase) \<and>
   ledger (getAnswer (exampleServices\<lparr>llm := (\<lambda>p. Some ''Sorry, something went wrong.'')\<rparr>)
             exampleLedger '' Hand Hygiene '' ''s7'') =
     exampleLedger @
       [\<lparr>sessionId = ''s7'', messageId = ''m9'', question = ''hand hygiene'',
          answer = ''Sorry, something went wrong.'', pageNumbers = [1, 3], rating = None,
          success = False, timestamp = 900\<rparr>] \<and>
   Save \<lparr>sessionId = ''s7'', messageId = ''m9'', question = ''hand hygiene'',
          answer = ''Hands are washed.'', pageNumbers = [1, 3], rating = None,
          success = True, timestamp = 900\<rparr>
     \<in> set (trace (getAnswer exampleServices exampleLedger '' Hand Hygiene '' ''s7'')) \<and>
   \<not> (\<exists>phrase \<in> set errorPatterns. containsIgnoringCase ''Hands are washed.'' phrase)"
proof -
  have a: "Save \<lparr>sessionId = ''s7'', messageId = ''m9'', question = ''hand hygiene'',
          answer = ''Sorry, something went wrong.'', pageNumbers = [1, 3], rating = None,
          success = False, timestamp = 900\<rparr>
     \<in> set (trace (getAnswer (exampleServices\<lparr>llm := (\<lambda>p. Some ''Sorry, something went wrong.'')\<rparr>)
                     exampleLedger '' Hand Hygiene '' ''s7''))"
    by code_simp
  have b: "ledger (getAnswer (exampleServices\<lparr>llm := (\<lambda>p. Some ''Sorry, something went wrong.'')\<rparr>)
             exampleLedger '' Hand Hygiene '' ''s7'') =
     exampleLedger @
       [\<lparr>sessionId = ''s7'', messageId = ''m9'', question = ''hand hygiene'',
          answer = ''Sorry, something went wrong.'', pageNumbers = [1, 3], rating = None,
          success = False, timestamp = 900\<rparr>]"
    by code_simp
  have c: "Save \<lparr>sessionId = ''s7'', messageId = ''m9'', question = ''hand hygiene'',
          answer = ''Hands are washed.'', pageNumbers = [1, 3], rating = None,
          success = True, timestamp = 900\<rparr>
     \<in> set (trace (getAnswer exampleServices exampleLedger '' Hand Hygiene '' ''s7''))"
    by code_simp
  from failure_signature_marks_turn [OF ex_nomatch,
      of "exampleServices\<lparr>llm := (\<lambda>p. Some ''Sorry, something went wrong.'')\<rparr>" "''s7''"] a
  have d: "\<exists>phrase \<in> set errorPatterns. containsIgnoringCase ''Sorry, something went wrong.'' phrase"
    by fastforce
  from failure_signature_marks_turn [OF ex_nomatch, of exampleServices "''s7''"] c
  have e: "\<not> (\<exists>phrase \<in> set errorPatterns. containsIgnoringCase ''Hands are washed.'' phrase)"
    by fastforce
  show ?thesis using ex_nomatch a b c d e by blast
qed

section \<open>Properties of ingestion\<close>

lemma processIfNew_total: "\<exists>st'. processIfNew sv st name = Inr st'"
  by (simp add: processIfNew_def split: prod.splits option.splits)

lemma find_record_None: "find (\<lambda>r. filename r = name \<and> fileSize r = sz) (processed st) = None \<longleftrightarrow> recordsOf st name sz = []"
  by (auto simp: recordsOf_def find_None_iff filter_empty_conv)

lemma processIfNew_skip:
  assumes "statSync sv name = Some sz" "\<not> ledgerFindThrows sv" "recordsOf st name sz \<noteq> []"
  shows "processIfNew sv st name = Inr (st\<lparr>events := events st @ [LedgerLookup name sz]\<rparr>)"
proof -
  from assms(3) obtain r where "find (\<lambda>r. filename r = name \<and> fileSize r = sz) (processed st) = Some r"
    using find_record_None [of name sz st] by (cases "find (\<lambda>r. filename r = name \<and> fileSize r = sz) (processed st)") auto
  then show ?thesis using assms(1,2)
    by (simp add: processIfNew_def processIfNewTry_def Let_def)
qed

lemma processIfNew_process:
  assumes "statSync sv name = Some sz" "ledgerFindThrows sv \<or> recordsOf st name sz = []"
    and "readPdf sv name = Some (pdfText, numpages)" "\<not> fromDocumentsThrows sv"
  shows "processIfNew sv st name =
     Inr \<lparr>processed =
             (if ledgerSaveThrows sv then processed st
              else processed st @ [\<lparr>filename = name, fileSize = sz, processedAt = clock sv,
                     chunksCount = length (langchainDocs name sz pdfText numpages (createDocuments sv pdfText))\<rparr>]),
          indexed = indexed st @ langchainDocs name sz pdfText numpages (createDocuments sv pdfText),
          events = events st @
            [LedgerLookup name sz,
             IndexerInvoked (langchainDocs name sz pdfText numpages (createDocuments sv pdfText)),
             LedgerSave \<lparr>filename = name, fileSize = sz, processedAt = clock sv,
                     chunksCount = length (langchainDocs name sz pdfText numpages (createDocuments sv pdfText))\<rparr>]\<rparr>"
proof -
  have "(if ledgerFindThrows sv then None
         else find (\<lambda>r. filename r = name \<and> fileSize r = sz) (processed st)) = None"
    using assms(2) find_record_None [of name sz st] by auto
  then show ?thesis using assms(1,3,4)
    by (simp add: processIfNew_def processIfNewTry_def Let_def)
qed

lemma processTwice_after_failed_record:
  assumes "statSync sv1 name = Some sz" and "statSync sv2 name = Some sz"
    and "readPdf sv1 name = Some (pdfText1, numpages1)" and "\<not> fromDocumentsThrows sv1"
    and "readPdf sv2 name = Some (pdfText2, numpages2)" and "\<not> fromDocumentsThrows sv2"
    and "ledgerSaveThrows sv1" and "\<not> ledgerSaveThrows sv2" and "recordsOf st name sz = []"
  shows "\<exists>st'. processTwice sv1 sv2 st name = Inr st' \<and>
           length (recordsOf st' name sz) = 1 \<and>
           indexerInvocations st' = indexerInvocations st + 2"
proof -
  obtain st1 where 1: "processIfNew sv1 st name = Inr st1" and p1: "processed st1 = processed st"
    and i1: "indexerInvocations st1 = indexerInvocations st + 1"
    using processIfNew_process [OF assms(1) _ assms(3,4), of st] assms(7,9)
    by (simp add: indexerInvocations_def)
  have r1: "recordsOf st1 name sz = []" using assms(9) p1 by (simp add: recordsOf_def)
  obtain st2 where 2: "processIfNew sv2 st1 name = Inr st2"
    and p2: "processed st2 = processed st1 @ [\<lparr>filename = name, fileSize = sz, processedAt = clock sv2,
                     chunksCount = length (langchainDocs name sz pdfText2 numpages2 (createDocuments sv2 pdfText2))\<rparr>]"
    and i2: "indexerInvocations st2 = indexerInvocations st1 + 1"
    using processIfNew_process [OF assms(2) _ assms(5,6), of st1] assms(8) r1
    by (simp add: indexerInvocations_def)
  have "processTwice sv1 sv2 st name = Inr st2" by (simp add: processTwice_def 1 2)
  moreover have "length (recordsOf st2 name sz) = 1"
    using r1 p2 by (simp add: recordsOf_def)
  moreover have "indexerInvocations st2 = indexerInvocations st + 2" using i1 i2 by simp
  ultimately show ?thesis by blast
qed

lemma exampleIngest_fields:
  "statSync exampleIngest ''policy.pdf'' = Some 10240"
  "readPdf exampleIngest ''policy.pdf'' = Some (''Visitors sign in. Staff wear badges.'', 2)"
  "\<not> fromDocumentsThrows exampleIngest" "\<not> ledgerFindThrows exampleIngest"
  "\<not> ledgerSaveThrows exampleIngest"
  "createDocuments exampleIngest ''Visitors sign in. Staff wear badges.''
     = [''Visitors sign in.'', ''Staff wear badges.'']"
  by (simp_all add: exampleIngest_def)

lemma emptyIngestState_fields:
  "recordsOf emptyIngestState name sz = []" "processed emptyIngestState = []"
  "indexed emptyIngestState = []" "events emptyIngestState = []"
  "indexerInvocations emptyIngestState = 0"
  by (simp_all add: recordsOf_def emptyIngestState_def indexerInvocations_def)

lemma length_langchainDocs: "length (langchainDocs name sz pdfText numpages docs) = length docs"
  by (simp add: langchainDocs_def)

text \<open>
  Claim C5, as the code has it.  For a file that can be read and indexed: when both lookups
  of the ledger are answered, the record is saved and the ledger had no record for the pair,
  two runs leave exactly one record for it and invoke the indexer once; and a run leaves the
  indexer alone exactly when its lookup is answered and finds a record for the pair, so a
  lookup that raises leads to processing as well.
\<close>

theorem ingest_twice:
  assumes "statSync sv1 name = Some sz" and "statSync sv2 name = Some sz"
    and "readPdf sv1 name = Some (pdfText, numpages)" and "\<not> fromDocumentsThrows sv1"
  shows "(\<not> ledgerFindThrows sv1 \<and> \<not> ledgerFindThrows sv2 \<and> \<not> ledgerSaveThrows sv1 \<and>
          recordsOf st name sz = [] \<longrightarrow>
            (\<exists>st'. processTwice sv1 sv2 st name = Inr st' \<and>
                   length (recordsOf st' name sz) = 1 \<and>
                   indexerInvocations st' = indexerInvocations st + 1)) \<and>
         (\<exists>st'. processIfNew sv1 st name = Inr st' \<and>
            (indexerInvocations st' = indexerInvocations st \<longleftrightarrow>
               \<not> ledgerFindThrows sv1 \<and> recordsOf st name sz \<noteq> []))"
proof (intro conjI impI)
  assume a: "\<not> ledgerFindThrows sv1 \<and> \<not> ledgerFindThrows sv2 \<and> \<not> ledgerSaveThrows sv1 \<and>
          recordsOf st name sz = []"
  define docs where "docs = langchainDocs name sz pdfText numpages (createDocuments sv1 pdfText)"
  define st1 where "st1 =
     \<lparr>processed = processed st @ [\<lparr>filename = name, fileSize = sz, processedAt = clock sv1,
                     chunksCount = length docs\<rparr>],
      indexed = indexed st @ docs,
      events = events st @
            [LedgerLookup name sz, IndexerInvoked docs,
             LedgerSave \<lparr>filename = name, fileSize = sz, processedAt = clock sv1,
                     chunksCount = length docs\<rparr>]\<rparr>"
  have 1: "processIfNew sv1 st name = Inr st1"
    using a processIfNew_process [OF assms(1) _ assms(3,4), of st] by (simp add: st1_def docs_def)
  have r1: "recordsOf st1 name sz = [\<lparr>filename = name, fileSize = sz, processedAt = clock sv1,
                     chunksCount = length docs\<rparr>]"
    using a by (simp add: recordsOf_def st1_def)
  then have "recordsOf st1 name sz \<noteq> []" by simp
  with a have 2: "processIfNew sv2 st1 name = Inr (st1\<lparr>events := events st1 @ [LedgerLookup name sz]\<rparr>)"
    by (intro processIfNew_skip assms(2)) simp_all
  have "processTwice sv1 sv2 st name = Inr (st1\<lparr>events := events st1 @ [LedgerLookup name sz]\<rparr>)"
    by (simp add: processTwice_def 1 2)
  moreover have "length (recordsOf (st1\<lparr>events := events st1 @ [LedgerLookup name sz]\<rparr>) name sz) = 1"
    using r1 by (simp add: recordsOf_def)
  moreover have "indexerInvocations (st1\<lparr>events := events st1 @ [LedgerLookup name sz]\<rparr>) =
      indexerInvocations st + 1"
    by (simp add: indexerInvocations_def st1_def)
  ultimately show "\<exists>st'. processTwice sv1 sv2 st name = Inr st' \<and>
                   length (recordsOf st' name sz) = 1 \<and>
                   indexerInvocations st' = indexerInvocations st + 1"
    by blast
next
  show "\<exists>st'. processIfNew sv1 st name = Inr st' \<and>
            (indexerInvocations st' = indexerInvocations st \<longleftrightarrow>
               \<not> ledgerFindThrows sv1 \<and> recordsOf st name sz \<noteq> [])"
  proof (cases "\<not> ledgerFindThrows sv1 \<and> recordsOf st name sz \<noteq> []")
    case True
    then show ?thesis using processIfNew_skip [OF assms(1), of st]
      by (simp add: indexerInvocations_def)
  next
    case False
    then have "ledgerFindThrows sv1 \<or> recordsOf st name sz = []" by blast
    from processIfNew_process [OF assms(1) this assms(3,4)] False
    show ?thesis by (simp add: indexerInvocations_def)
  qed
qed

text \<open>A run of it: a two-page file of 10 KB, ingested twice.\<close>

theorem ingest_twice_witness:
  "statSync exampleIngest ''policy.pdf'' = Some 10240 \<and>
   readPdf exampleIngest ''policy.pdf'' = Some (''Visitors sign in. Staff wear badges.'', 2) \<and>
   \<not> fromDocumentsThrows exampleIngest \<and> \<not> ledgerFindThrows exampleIngest \<and>
   \<not> ledgerSaveThrows exampleIngest \<and> recordsOf emptyIngestState ''policy.pdf'' 10240 = [] \<and>
   map_sum id (\<lambda>st'. (length (recordsOf st' ''policy.pdf'' 10240), indexerInvocations st'))
     (processTwice exampleIngest exampleIngest emptyIngestState ''policy.pdf'') = Inr (1, 1)"
  using ingest_twice [OF exampleIngest_fields(1) exampleIngest_fields(1) exampleIngest_fields(2,3),
      of emptyIngestState]
    exampleIngest_fields emptyIngestState_fields
  by auto

text \<open>
  Without the provisos the claim fails: when the save of the record raises in the first run,
  the second run indexes the file again.
\<close>

theorem ingest_twice_reindexes_after_failed_record:
  "ledgerSaveThrows (exampleIngest\<lparr>ledgerSaveThrows := True\<rparr>) \<and>
   map_sum id (\<lambda>st'. (length (recordsOf st' ''policy.pdf'' 10240), indexerInvocations st'))
     (processTwice (exampleIngest\<lparr>ledgerSaveThrows := True\<rparr>) exampleIngest emptyIngestState
        ''policy.pdf'') = Inr (1, 2)"
proof -
  have a: "statSync (exampleIngest\<lparr>ledgerSaveThrows := True\<rparr>) ''policy.pdf'' = Some 10240"
    and b: "readPdf (exampleIngest\<lparr>ledgerSaveThrows := True\<rparr>) ''policy.pdf''
            = Some (''Visitors sign in. Staff wear badges.'', 2)"
    and c: "\<not> fromDocumentsThrows (exampleIngest\<lparr>ledgerSaveThrows := True\<rparr>)"
    and d: "ledgerSaveThrows (exampleIngest\<lparr>ledgerSaveThrows := True\<rparr>)"
    by (simp_all add: exampleIngest_def)
  from processTwice_after_failed_record
    [OF a exampleIngest_fields(1) b c exampleIngest_fields(2,3) d exampleIngest_fields(5)
        emptyIngestState_fields(1)]
  show ?thesis using d emptyIngestState_fields by auto
qed

text \<open>
  Claim C6, as the code has it.  When the save of the ledger's record raises, the run still
  completes without an exception: the documents are indexed and the ledger is left as it was.
  When the ledger had no record for the pair, it still has none, and any later run that finds
  the file with the same size and can read it invokes the indexer again.
\<close>

theorem record_failure_swallowed:
  assumes "ledgerSaveThrows sv" and "statSync sv name = Some sz"
    and "ledgerFindThrows sv \<or> recordsOf st name sz = []"
    and "readPdf sv name = Some (pdfText, numpages)" and "\<not> fromDocumentsThrows sv"
  shows "\<exists>st'. processIfNew sv st name = Inr st' \<and> processed st' = processed st \<and>
           indexed st' = indexed st @ langchainDocs name sz pdfText numpages (createDocuments sv pdfText) \<and>
           indexerInvocations st' = indexerInvocations st + 1 \<and>
           (recordsOf st name sz = [] \<longrightarrow>
              recordsOf st' name sz = [] \<and>
              (\<forall>sv2 pdfText2 numpages2.
                  statSync sv2 name = Some sz \<longrightarrow> readPdf sv2 name = Some (pdfText2, numpages2) \<longrightarrow>
                  (\<exists>st''. processIfNew sv2 st' name = Inr st'' \<and>
                          indexerInvocations st'' = indexerInvocations st' + 1)))"
proof -
  obtain st' where 1: "processIfNew sv st name = Inr st'" and p: "processed st' = processed st"
    and i: "indexed st' = indexed st @ langchainDocs name sz pdfText numpages (createDocuments sv pdfText)"
    and n: "indexerInvocations st' = indexerInvocations st + 1"
    using assms(1) by (simp add: processIfNew_process [OF assms(2-5)] indexerInvocations_def)
  have r: "recordsOf st' name sz = []" if "recordsOf st name sz = []"
    using that p by (simp add: recordsOf_def)
  have again: "\<exists>st''. processIfNew sv2 st' name = Inr st'' \<and>
                 indexerInvocations st'' = indexerInvocations st' + 1"
    if "recordsOf st name sz = []" "statSync sv2 name = Some sz"
       "readPdf sv2 name = Some (pdfText2, numpages2)"
    for sv2 pdfText2 numpages2
  proof (cases "fromDocumentsThrows sv2")
    case False
    have "ledgerFindThrows sv2 \<or> recordsOf st' name sz = []" using r that(1) by simp
    from processIfNew_process [OF that(2) this that(3) False]
    show ?thesis by (simp add: indexerInvocations_def)
  next
    case True
    have "(if ledgerFindThrows sv2 then None
           else find (\<lambda>r. filename r = name \<and> fileSize r = sz) (processed st')) = None"
      using r [OF that(1)] find_record_None [of name sz st'] by auto
    then show ?thesis using that(2,3) True
      by (simp add: processIfNew_def processIfNewTry_def Let_def indexerInvocations_def)
  qed
  show ?thesis using 1 p i n r again by blast
qed

text \<open>A run of it, and a second run after it.\<close>

theorem record_failure_swallowed_witness:
  "ledgerSaveThrows (exampleIngest\<lparr>ledgerSaveThrows := True\<rparr>) \<and>
   statSync (exampleIngest\<lparr>ledgerSaveThrows := True\<rparr>) ''policy.pdf'' = Some 10240 \<and>
   recordsOf emptyIngestState ''policy.pdf'' 10240 = [] \<and>
   readPdf (exampleIngest\<lparr>ledgerSaveThrows := True\<rparr>) ''policy.pdf''
     = Some (''Visitors sign in. Staff wear badges.'', 2) \<and>
   \<not> fromDocumentsThrows (exampleIngest\<lparr>ledgerSaveThrows := True\<rparr>) \<and>
   statSync exampleIngest ''policy.pdf'' = Some 10240 \<and>
   readPdf exampleIngest ''policy.pdf'' = Some (''Visitors sign in. Staff wear badges.'', 2) \<and>
   map_sum id (\<lambda>st'. (processed st', length (indexed st'), indexerInvocations st'))
     (processIfNew (exampleIngest\<lparr>ledgerSaveThrows := True\<rparr>) emptyIngestState ''policy.pdf'')
     = Inr ([], 2, 1) \<and>
   map_sum id indexerInvocations
     (processTwice (exampleIngest\<lparr>ledgerSaveThrows := True\<rparr>) exampleIngest emptyIngestState
        ''policy.pdf'') = Inr 2"
proof -
  have 1: "ledgerSaveThrows (exampleIngest\<lparr>ledgerSaveThrows := True\<rparr>)" by simp
  have 2: "statSync (exampleIngest\<lparr>ledgerSaveThrows := True\<rparr>) ''policy.pdf'' = Some 10240"
    by (simp add: exampleIngest_def)
  have 3: "ledgerFindThrows (exampleIngest\<lparr>ledgerSaveThrows := True\<rparr>) \<or>
           recordsOf emptyIngestState ''policy.pdf'' 10240 = []"
    by (simp add: emptyIngestState_fields)
  have 4: "readPdf (exampleIngest\<lparr>ledgerSaveThrows := True\<rparr>) ''policy.pdf''
     = Some (''Visitors sign in. Staff wear badges.'', 2)"
    by (simp add: exampleIngest_def)
  have 5: "\<not> fromDocumentsThrows (exampleIngest\<lparr>ledgerSaveThrows := True\<rparr>)"
    by (simp add: exampleIngest_def)
  have 7: "createDocuments (exampleIngest\<lparr>ledgerSaveThrows := True\<rparr>)
                ''Visitors sign in. Staff wear badges.'' = [''Visitors sign in.'', ''Staff wear badges.'']"
    by (simp add: exampleIngest_def)
  from record_failure_swallowed [OF 1 2 3 4 5] emptyIngestState_fields
  obtain st' where a: "processIfNew (exampleIngest\<lparr>ledgerSaveThrows := True\<rparr>) emptyIngestState
                         ''policy.pdf'' = Inr st'"
    and b: "processed st' = []"
    and c: "indexed st' = langchainDocs ''policy.pdf'' 10240 ''Visitors sign in. Staff wear badges.'' 2
              (createDocuments (exampleIngest\<lparr>ledgerSaveThrows := True\<rparr>)
                 ''Visitors sign in. Staff wear badges.'')"
    and d: "indexerInvocations st' = 1"
    and e: "\<forall>sv2 pdfText2 numpages2.
              statSync sv2 ''policy.pdf'' = Some 10240 \<longrightarrow>
              readPdf sv2 ''policy.pdf'' = Some (pdfText2, numpages2) \<longrightarrow>
              (\<exists>st''. processIfNew sv2 st' ''policy.pdf'' = Inr st'' \<and>
                      indexerInvocations st'' = indexerInvocations st' + 1)"
    by auto
  from e exampleIngest_fields(1,2) obtain st'' where
    f: "processIfNew exampleIngest st' ''policy.pdf'' = Inr st''"
    and g: "indexerInvocations st'' = indexerInvocations st' + 1"
    by blast
  have h: "processTwice (exampleIngest\<lparr>ledgerSaveThrows := True\<rparr>) exampleIngest emptyIngestState
        ''policy.pdf'' = Inr st''"
    by (simp add: processTwice_def a f)
  have l: "length (indexed st') = 2" by (simp add: c length_langchainDocs exampleIngest_fields(6))
  show ?thesis
    using 1 2 4 5 exampleIngest_fields(1,2) emptyIngestState_fields(1)
    by (simp add: a b l d h g)
qed

text \<open>
  The claim, that the failure reaches the caller, fails: the run returns normally, with two
  documents indexed and no record.
\<close>

theorem record_failure_does_not_propagate:
  "ledgerSaveThrows (exampleIngest\<lparr>ledgerSaveThrows := True\<rparr>) \<and>
   map_sum id (\<lambda>st'. (processed st', length (indexed st')))
     (processIfNew (exampleIngest\<lparr>ledgerSaveThrows := True\<rparr>) emptyIngestState ''policy.pdf'')
     = Inr ([], 2)"
proof -
  have 2: "statSync (exampleIngest\<lparr>ledgerSaveThrows := True\<rparr>) ''policy.pdf'' = Some 10240"
    by (simp add: exampleIngest_def)
  have 3: "ledgerFindThrows (exampleIngest\<lparr>ledgerSaveThrows := True\<rparr>) \<or>
           recordsOf emptyIngestState ''policy.pdf'' 10240 = []"
    by (simp add: emptyIngestState_fields)
  have 4: "readPdf (exampleIngest\<lparr>ledgerSaveThrows := True\<rparr>) ''policy.pdf''
     = Some (''Visitors sign in. Staff wear badges.'', 2)"
    by (simp add: exampleIngest_def)
  have 5: "\<not> fromDocumentsThrows (exampleIngest\<lparr>ledgerSaveThrows := True\<rparr>)"
    by (simp add: exampleIngest_def)
  show ?thesis
    by (simp add: processIfNew_process [OF 2 3 4 5] emptyIngestState_fields length_langchainDocs
        exampleIngest_fields(6))
qed

end
